theory Spec2Isabelle
  imports Complex_Main
begin

section \<open>JavaScript values\<close>

text \<open>
  The tracker works on whatever the RPC endpoint answers, parsed from JSON, so the
  embedding keeps JavaScript's dynamic values: a transaction, an event, a version and
  the data of an event are all \<open>jsval\<close>s. \<open>JUndefined\<close> is the result of reading a
  property that is absent. An object is the list of its own properties (keys distinct,
  in insertion order). Strings are the byte sequences of their UTF-8 encoding.
\<close>

datatype jsval =
    JUndefined
  | JNull
  | JBool bool
  | JNum rat
  | JStr string
  | JArr "jsval list"
  | JObj "(string \<times> jsval) list"

text \<open>
  An exception: \<open>TypeError\<close> is raised by the runtime (a property read on
  \<open>null\<close> or \<open>undefined\<close>, a call of something that is not a function, a
  \<open>for ... of\<close> over something that is not iterable); \<open>Error msg\<close> is
  \<open>new Error(msg)\<close>.
\<close>

datatype error = TypeError | Error string

definition andThen :: "error + 'a \<Rightarrow> ('a \<Rightarrow> error + 'b) \<Rightarrow> error + 'b" where
  "andThen r f = (case r of Inl e \<Rightarrow> Inl e | Inr v \<Rightarrow> f v)"

text \<open>Truthiness, as used by \<open>||\<close>, \<open>&&\<close>, \<open>!\<close> and \<open>if\<close>.\<close>

fun truthy :: "jsval \<Rightarrow> bool" where
  "truthy JUndefined = False"
| "truthy JNull = False"
| "truthy (JBool b) = b"
| "truthy (JNum n) = (n \<noteq> 0)"
| "truthy (JStr s) = (s \<noteq> [])"
| "truthy (JArr xs) = True"
| "truthy (JObj kvs) = True"

text \<open>\<open>a || b\<close>\<close>

definition js_or :: "jsval \<Rightarrow> jsval \<Rightarrow> jsval" where
  "js_or a b = (if truthy a then a else b)"

text \<open>
  \<open>a === b\<close>: primitives are compared by value; two objects or arrays are equal only if
  they are the same reference, which a value parsed from a response and a value of the
  command line never are.
\<close>

fun strict_eq :: "jsval \<Rightarrow> jsval \<Rightarrow> bool" where
  "strict_eq (JArr xs) b = False"
| "strict_eq (JObj kvs) b = False"
| "strict_eq a b = (a = b)"

text \<open>
  \<open>v.k\<close> for the property names the tracker reads (\<open>version\<close>, \<open>events\<close>,
  \<open>type\<close>, \<open>data\<close>, \<open>batch_id\<close> and the other data fields): none of them is
  a built-in property of a string, an array or \<open>Object.prototype\<close>, so the read
  gives the own property of an object, \<open>undefined\<close> where there is none, and raises on
  \<open>null\<close> and \<open>undefined\<close>.
\<close>

fun get_prop :: "jsval \<Rightarrow> string \<Rightarrow> error + jsval" where
  "get_prop JUndefined k = Inl TypeError"
| "get_prop JNull k = Inl TypeError"
| "get_prop (JObj kvs) k = Inr (case map_of kvs k of None \<Rightarrow> JUndefined | Some v \<Rightarrow> v)"
| "get_prop v k = Inr JUndefined"

text \<open>\<open>v?.k\<close>\<close>

definition get_prop_opt :: "jsval \<Rightarrow> string \<Rightarrow> error + jsval" where
  "get_prop_opt v k = (if v = JNull \<or> v = JUndefined then Inr JUndefined else get_prop v k)"

text \<open>
  The values a \<open>for (const x of v)\<close> runs through: the elements of an array, the
  characters of a string (each a string of its own); anything else is not iterable.
\<close>

fun iterate :: "jsval \<Rightarrow> error + jsval list" where
  "iterate (JArr xs) = Inr xs"
| "iterate (JStr s) = Inr (map (\<lambda>c. JStr [c]) s)"
| "iterate v = Inl TypeError"

section \<open>Event classifier (track.js)\<close>

text \<open>
  \<open>s.split('::')\<close>: the pieces of \<open>s\<close> between the occurrences of the separator,
  found from left to right; a string without the separator (the empty one too) is its
  only piece.
\<close>

fun split_colons :: "string \<Rightarrow> string list" where
  "split_colons (c # d # cs) =
     (if c = CHR '':'' \<and> d = CHR '':'' then [] # split_colons cs
      else (case split_colons (d # cs) of
              p # ps \<Rightarrow> (c # p) # ps
            | [] \<Rightarrow> [[c]]))"
| "split_colons cs = [cs]"

text \<open>\<open>parts.join('::')\<close>\<close>

fun join_colons :: "string list \<Rightarrow> string" where
  "join_colons [] = []"
| "join_colons [p] = p"
| "join_colons (p # q # ps) = p @ ''::'' @ join_colons (q # ps)"

record parsed =
  address :: string
  module :: string
  name :: string

text \<open>
  \<open>parseEventType(typeStr)\<close>. \<open>typeStr.split\<close> exists on strings only: on
  any other value the call raises. \<open>None\<close> is the \<open>null\<close> the function returns.
\<close>

fun parseEventType :: "jsval \<Rightarrow> error + parsed option" where
  "parseEventType (JStr typeStr) =
     (let parts = split_colons typeStr in
      if length parts < 3 then Inr None
      else Inr (Some \<lparr>address = parts ! 0, module = parts ! 1, name = parts ! 2\<rparr>))"
| "parseEventType v = Inl TypeError"

text \<open>
  What the tracker writes is kept as it is built, before any library turns it into
  characters: a line is the sequence of the pieces of its template literal. \<open>Lit\<close> is
  literal text, \<open>Interp v\<close> the interpolation \<open>${v}\<close>, \<open>Chalk c v\<close> the call
  \<open>chalk.c(v)\<close>, \<open>Stringify v\<close> the call \<open>JSON.stringify(v)\<close> and
  \<open>Message e\<close> the \<open>message\<close> of a caught exception. None of these calls raises on
  a \<open>jsval\<close>.
\<close>

datatype style = gray | white | cyan | green | magenta | blue

datatype piece =
    Lit string
  | Interp jsval
  | Chalk style jsval
  | Stringify jsval
  | Message error

type_synonym line = "piece list"

text \<open>The UTF-8 bytes of the dash, the bullet and the arrow of the templates.\<close>

definition em_dash :: string where
  "em_dash = [CHR 0xE2, CHR 0x80, CHR 0x94]"

definition bullet :: string where
  "bullet = [CHR 0xE2, CHR 0x80, CHR 0xA2]"

definition arrow :: string where
  "arrow = [CHR 0xE2, CHR 0x86, CHR 0x92]"

definition prefix_of :: "parsed \<Rightarrow> line" where
  "prefix_of p = [Chalk gray (JStr ''[''), Chalk white (JStr (name p)), Chalk gray (JStr '']'')]"

text \<open>\<open>formatEvent(evt)\<close>\<close>

definition formatEvent :: "jsval \<Rightarrow> error + line" where
  "formatEvent evt =
     andThen (get_prop evt ''type'') (\<lambda>ty.
     andThen (parseEventType (js_or ty (JStr ''''))) (\<lambda>parsed.
       case parsed of
         None \<Rightarrow> Inr [Lit ''Unknown event: '', Stringify evt]
       | Some p \<Rightarrow>
           andThen (get_prop evt ''data'') (\<lambda>d.
           let data = js_or d (JObj []); pre = prefix_of p in
           if name p = ''DrillingStartedEvent'' then
             andThen (get_prop data ''batch_id'') (\<lambda>batch_id.
             andThen (get_prop data ''location'') (\<lambda>location.
             andThen (get_prop data ''quantity'') (\<lambda>quantity.
             andThen (get_prop data ''unit'') (\<lambda>unit.
               Inr (pre @ [Lit '' batch '', Chalk cyan batch_id,
                           Lit ('' '' @ em_dash @ '' ''), Chalk green (JStr ''drilling started''),
                           Lit '' at '', Chalk white location,
                           Lit ('' '' @ bullet @ '' qty ''), Chalk white quantity,
                           Lit '' '', Chalk white unit])))))
           else if name p = ''DrillingCompletedEvent'' then
             andThen (get_prop data ''batch_id'') (\<lambda>batch_id.
             andThen (get_prop data ''location'') (\<lambda>location.
               Inr (pre @ [Lit '' batch '', Chalk cyan batch_id,
                           Lit ('' '' @ em_dash @ '' ''), Chalk green (JStr ''drilling completed''),
                           Lit '' at '', Chalk white location])))
           else if name p = ''TransportationEvent'' then
             andThen (get_prop data ''batch_id'') (\<lambda>batch_id.
             andThen (get_prop data ''method'') (\<lambda>method.
             andThen (get_prop data ''from'') (\<lambda>from.
             andThen (get_prop data ''to'') (\<lambda>to.
               Inr (pre @ [Lit '' batch '', Chalk cyan batch_id,
                           Lit ('' '' @ em_dash @ '' moved ''), Chalk white method,
                           Lit '' from '', Chalk white from,
                           Lit ('' '' @ arrow @ '' ''), Chalk white to])))))
           else if name p = ''RefiningEvent'' then
             andThen (get_prop data ''batch_id'') (\<lambda>batch_id.
             andThen (get_prop data ''refinery'') (\<lambda>refinery.
             andThen (get_prop data ''output_quantity'') (\<lambda>output_quantity.
             andThen (get_prop data ''unit'') (\<lambda>unit.
               Inr (pre @ [Lit '' batch '', Chalk cyan batch_id,
                           Lit ('' '' @ em_dash @ '' ''), Chalk magenta (JStr ''refined''),
                           Lit '' at '', Chalk white refinery,
                           Lit ('' '' @ bullet @ '' output ''), Chalk white output_quantity,
                           Lit '' '', Chalk white unit])))))
           else if name p = ''DeliveryEvent'' then
             andThen (get_prop data ''batch_id'') (\<lambda>batch_id.
             andThen (get_prop data ''destination'') (\<lambda>destination.
               Inr (pre @ [Lit '' batch '', Chalk cyan batch_id,
                           Lit ('' '' @ em_dash @ '' ''), Chalk blue (JStr ''delivered''),
                           Lit '' to '', Chalk white destination])))
           else Inr (pre @ [Lit '' '', Stringify data]))))"

section \<open>Numbers\<close>

text \<open>
  The value of \<open>Number(v)\<close>. A JavaScript number is a double: \<open>NaN\<close>, an infinity,
  or a rational (both zeros are \<open>Fin 0\<close>, which \<open><=\<close> does not tell apart).
\<close>

datatype jsnum = NaN | NegInf | Fin rat | PosInf

text \<open>\<open>a <= b\<close> on numbers: false as soon as one side is \<open>NaN\<close>.\<close>

fun num_le :: "jsnum \<Rightarrow> jsnum \<Rightarrow> bool" where
  "num_le NaN b = False"
| "num_le a NaN = False"
| "num_le NegInf b = True"
| "num_le a PosInf = True"
| "num_le (Fin a) (Fin b) = (a \<le> b)"
| "num_le a b = False"

text \<open>
  \<open>Number(v)\<close>. The conversion of a string to a number (white space, signs, decimal
  and radix literals, exponents, rounding to the nearest double) is the language's and
  is a parameter \<open>sn\<close> of the embedding; everything else is written out. An array is
  converted through its string: the empty array gives \<open>0\<close>, an array of one element
  the number of that element's string, a longer one \<open>NaN\<close> (its string has a comma).
\<close>

fun Number :: "(string \<Rightarrow> jsnum) \<Rightarrow> jsval \<Rightarrow> jsnum" where
  "Number sn JUndefined = NaN"
| "Number sn JNull = Fin 0"
| "Number sn (JBool b) = Fin (if b then 1 else 0)"
| "Number sn (JNum n) = Fin n"
| "Number sn (JStr s) = sn s"
| "Number sn (JObj kvs) = NaN"
| "Number sn (JArr []) = Fin 0"
| "Number sn (JArr [JUndefined]) = Fin 0"
| "Number sn (JArr [JNull]) = Fin 0"
| "Number sn (JArr [JNum n]) = Fin n"
| "Number sn (JArr [JStr s]) = sn s"
| "Number sn (JArr [JArr ys]) = Number sn (JArr ys)"
| "Number sn (JArr xs) = NaN"

text \<open>
  An instance of the parameter for the versions a node sends, which are strings of
  decimal digits: such a string is the number it writes, the empty string is \<open>0\<close>.
  The other numeric literals of the language are not part of this instance (it answers
  \<open>NaN\<close>), nor is the rounding of integers beyond \<open>2^53\<close>.
\<close>

definition is_digit :: "char \<Rightarrow> bool" where
  "is_digit c = (48 \<le> (of_char c :: nat) \<and> (of_char c :: nat) \<le> 57)"

definition decimal_value :: "string \<Rightarrow> nat" where
  "decimal_value s = foldl (\<lambda>a c. 10 * a + (of_char c - 48)) 0 s"

definition decimal_number :: "string \<Rightarrow> jsnum" where
  "decimal_number s = (if list_all is_digit s then Fin (of_nat (decimal_value s)) else NaN)"

section \<open>Incremental poller (track.js)\<close>

text \<open>
  The side effects of the command, in the order they happen: the calls of the logger,
  the wait between two cycles, and the exit of the process.
\<close>

datatype effect =
    LogInfo line
  | LogError line
  | LogWarning line
  | LogSuccess line
  | LogNewLine
  | StartSpinner string
  | SucceedSpinner string
  | Sleep jsnum
  | ProcessExit nat

text \<open>
  The state of a running \<open>pollEvents\<close>: its variable \<open>lastSeenVersion\<close> (the
  watermark, \<open>JNull\<close> while unset) and the effects so far.
\<close>

record poller =
  lastSeenVersion :: jsval
  effects :: "effect list"

text \<open>The second argument of \<open>pollEvents\<close>.\<close>

record options =
  moduleFilter :: jsval
  batchId :: jsval
  intervalMs :: jsnum

definition log :: "effect \<Rightarrow> poller \<Rightarrow> poller" where
  "log e st = st\<lparr>effects := effects st @ [e]\<rparr>"

text \<open>
  \<open>for (const x of xs) body\<close> on a state: \<open>continue\<close> is a body that returns
  normally; an exception (\<open>Some e\<close>) leaves the loop with the state reached so far.
\<close>

fun forOf :: "('a \<Rightarrow> 's \<Rightarrow> error option \<times> 's) \<Rightarrow> 'a list \<Rightarrow> 's \<Rightarrow> error option \<times> 's" where
  "forOf body [] st = (None, st)"
| "forOf body (x # xs) st =
     (case body x st of
        (Some e, st') \<Rightarrow> (Some e, st')
      | (None, st') \<Rightarrow> forOf body xs st')"

text \<open>The body of the inner loop of \<open>pollEvents\<close>, for one event (lines 66 to 71).\<close>

definition eventBody :: "options \<Rightarrow> jsval \<Rightarrow> poller \<Rightarrow> error option \<times> poller" where
  "eventBody opts evt st =
     (case andThen (get_prop evt ''type'') (\<lambda>ty. parseEventType (js_or ty (JStr ''''))) of
        Inl e \<Rightarrow> (Some e, st)
      | Inr None \<Rightarrow> (None, st)
      | Inr (Some parsed) \<Rightarrow>
          if truthy (moduleFilter opts) \<and> \<not> strict_eq (JStr (module parsed)) (moduleFilter opts)
          then (None, st)
          else
            (case (if truthy (batchId opts)
                   then andThen (get_prop evt ''data'') (\<lambda>d.
                        andThen (get_prop_opt d ''batch_id'') (\<lambda>b.
                          Inr (\<not> strict_eq b (batchId opts))))
                   else Inr False) of
               Inl e \<Rightarrow> (Some e, st)
             | Inr True \<Rightarrow> (None, st)
             | Inr False \<Rightarrow>
                 (let st1 = log LogNewLine st in
                  case formatEvent evt of
                    Inl e \<Rightarrow> (Some e, st1)
                  | Inr l \<Rightarrow> (None, log (LogSuccess l) st1))))"

text \<open>
  The body of the outer loop, for one transaction (lines 62 to 73). \<open>sn\<close> is the
  conversion of strings to numbers that \<open>Number\<close> uses.
\<close>

definition txnBody ::
  "(string \<Rightarrow> jsnum) \<Rightarrow> options \<Rightarrow> jsval \<Rightarrow> poller \<Rightarrow> error option \<times> poller" where
  "txnBody sn opts txn st =
     (case get_prop txn ''version'' of
        Inl e \<Rightarrow> (Some e, st)
      | Inr version \<Rightarrow>
          if lastSeenVersion st \<noteq> JNull
             \<and> num_le (Number sn version) (Number sn (lastSeenVersion st))
          then (None, st)
          else
            (case andThen (get_prop txn ''events'') (\<lambda>ev. iterate (js_or ev (JArr []))) of
               Inl e \<Rightarrow> (Some e, st)
             | Inr events \<Rightarrow>
                 (case forOf (eventBody opts) events st of
                    (Some e, st') \<Rightarrow> (Some e, st')
                  | (None, st') \<Rightarrow> (None, st'\<lparr>lastSeenVersion := version\<rparr>))))"

text \<open>\<open>Array.isArray(txns) ? txns.slice().reverse() : []\<close>\<close>

fun ordered_of :: "jsval \<Rightarrow> jsval list" where
  "ordered_of (JArr txns) = rev txns"
| "ordered_of v = []"

text \<open>The \<open>catch\<close> of the cycle.\<close>

definition catch_warning :: "error \<Rightarrow> poller \<Rightarrow> poller" where
  "catch_warning err st = log (LogWarning [Lit ''Polling error: '', Message err]) st"

text \<open>
  One turn of \<open>while (true)\<close> (lines 54 to 79). \<open>fetched\<close> is the outcome of
  \<open>await rpc.getAccountTransactions(address, params)\<close>: the response's data, or
  the exception the call was rejected with (what the client itself logs before it
  rejects is not part of the trace kept here). The turn ends with the wait.
\<close>

definition pollCycle ::
  "(string \<Rightarrow> jsnum) \<Rightarrow> options \<Rightarrow> error + jsval \<Rightarrow> poller \<Rightarrow> poller" where
  "pollCycle sn opts fetched st =
     log (Sleep (intervalMs opts))
       (case fetched of
          Inl err \<Rightarrow> catch_warning err st
        | Inr txns \<Rightarrow>
            (case forOf (txnBody sn opts) (ordered_of txns) st of
               (Some err, st') \<Rightarrow> catch_warning err st'
             | (None, st') \<Rightarrow> st'))"

text \<open>
  The loop has no exit: it goes on for as long as the process lives. A run is fixed by
  the outcomes of its fetches, and \<open>pollLoop\<close> on the first \<open>n\<close> of them is the
  state after \<open>n\<close> turns.
\<close>

fun pollLoop ::
  "(string \<Rightarrow> jsnum) \<Rightarrow> options \<Rightarrow> (error + jsval) list \<Rightarrow> poller \<Rightarrow> poller" where
  "pollLoop sn opts [] st = st"
| "pollLoop sn opts (fetched # rest) st = pollLoop sn opts rest (pollCycle sn opts fetched st)"

text \<open>The statements of \<open>pollEvents\<close> before the loop (lines 47 to 51).\<close>

definition start :: "jsval \<Rightarrow> options \<Rightarrow> poller" where
  "start addr opts =
     \<lparr>lastSeenVersion = JNull,
      effects =
        [LogInfo [Lit ''Tracking events for account: '', Interp addr]]
        @ (if truthy (moduleFilter opts)
           then [LogInfo [Lit ''Module filter: '', Interp (moduleFilter opts)]] else [])
        @ (if truthy (batchId opts)
           then [LogInfo [Lit ''Batch filter: '', Interp (batchId opts)]] else [])\<rparr>"

definition pollEvents ::
  "(string \<Rightarrow> jsnum) \<Rightarrow> jsval \<Rightarrow> options \<Rightarrow> (error + jsval) list \<Rightarrow> poller" where
  "pollEvents sn addr opts fetches = pollLoop sn opts fetches (start addr opts)"

section \<open>RPC client\<close>

text \<open>
  The client: the table of the networks (name and endpoint, in insertion order) and
  the name of the current one.
\<close>

record rpcClient =
  networks :: "(string \<times> jsval) list"
  currentNetwork :: string

text \<open>The state the constructor leaves.\<close>

definition new_rpcClient :: rpcClient where
  "new_rpcClient =
     \<lparr>networks =
        [(''testnet'', JStr ''https://aptos.testnet.porto.movementlabs.xyz/v1''),
         (''devnet'', JStr ''https://aptos.devnet.porto.movementlabs.xyz/v1''),
         (''mainnet'', JStr ''https://mainnet.movementnetwork.xyz/v1'')],
      currentNetwork = ''testnet''\<rparr>"

text \<open>
  The table is a plain object, so \<open>this.networks[network]\<close> finds, besides the
  entries of the table, what every object inherits from \<open>Object.prototype\<close>: for
  these names the read gives a function (an object for \<open>__proto__\<close>), which is truthy.
\<close>

definition object_prototype_names :: "string list" where
  "object_prototype_names =
     [''constructor'', ''hasOwnProperty'', ''isPrototypeOf'', ''propertyIsEnumerable'',
      ''toLocaleString'', ''toString'', ''valueOf'', ''__proto__'',
      ''__defineGetter__'', ''__defineSetter__'', ''__lookupGetter__'', ''__lookupSetter__'']"

text \<open>The truth value of \<open>this.networks[network]\<close>.\<close>

definition network_truthy :: "(string \<times> jsval) list \<Rightarrow> string \<Rightarrow> bool" where
  "network_truthy nets network =
     (case map_of nets network of
        Some url \<Rightarrow> truthy url
      | None \<Rightarrow> network \<in> set object_prototype_names)"

text \<open>\<open>names.join(', ')\<close>\<close>

fun join_comma :: "string list \<Rightarrow> string" where
  "join_comma [] = []"
| "join_comma [p] = p"
| "join_comma (p # q # ps) = p @ '', '' @ join_comma (q # ps)"

text \<open>
  \<open>setNetwork(network)\<close>. The names in the message are the keys of the table in
  insertion order (none of the profiles is named by an array index, which would come
  first).
\<close>

definition setNetwork :: "rpcClient \<Rightarrow> string \<Rightarrow> error + rpcClient \<times> effect list" where
  "setNetwork this network =
     (if \<not> network_truthy (networks this) network
      then Inl (Error (''Unknown network: '' @ network @ ''. Available: ''
                        @ join_comma (map fst (networks this))))
      else Inr (this\<lparr>currentNetwork := network\<rparr>,
                [LogInfo [Lit ''Network set to: '', Interp (JStr network)]]))"

section \<open>The command\<close>

text \<open>
  The options of the command line: each is a string, or absent (\<open>undefined\<close>).
\<close>

record trackOpts =
  opt_address :: "string option"
  opt_module :: "string option"
  opt_batch :: "string option"
  opt_network :: "string option"
  opt_interval :: "string option"

fun opt_val :: "string option \<Rightarrow> jsval" where
  "opt_val None = JUndefined"
| "opt_val (Some s) = JStr s"

text \<open>\<open>opts.network || 'testnet'\<close>\<close>

fun network_of :: "string option \<Rightarrow> string" where
  "network_of None = ''testnet''"
| "network_of (Some s) = (if s = [] then ''testnet'' else s)"

text \<open>
  What the command comes to: the process exits, or the tracker runs (for ever) on the
  client as the command left it.
\<close>

datatype outcome = Exited "effect list" | Tracking rpcClient poller

text \<open>
  \<open>trackCommand(opts)\<close>, on the client \<open>rpc\<close> of the process and the outcomes of
  the fetches of the run.
\<close>

definition trackCommand ::
  "(string \<Rightarrow> jsnum) \<Rightarrow> trackOpts \<Rightarrow> rpcClient \<Rightarrow> (error + jsval) list \<Rightarrow> outcome" where
  "trackCommand sn opts rpc fetches =
     (let addr = opt_val (opt_address opts);
          module_filter = js_or (opt_val (opt_module opts)) (JStr ''oil_supply_chain'');
          batch_id = js_or (opt_val (opt_batch opts)) JNull;
          network = network_of (opt_network opts);
          interval_ms = (if truthy (opt_val (opt_interval opts))
                         then Number sn (opt_val (opt_interval opts)) else Fin 5000)
      in
      if \<not> truthy addr
      then Exited [LogError [Lit ''Address is required. Use --address <accountAddress>''],
                   ProcessExit 1]
      else
        (let (rpc', eff) =
               (case setNetwork rpc network of
                  Inl e \<Rightarrow>
                    (rpc, [LogWarning [Lit (''Unknown network '' @ [CHR 0x27]), Interp (JStr network),
                                       Lit ([CHR 0x27] @ '', defaulting to testnet.'')]])
                | Inr r \<Rightarrow> r);
             popts = \<lparr>moduleFilter = module_filter, batchId = batch_id,
                      intervalMs = interval_ms\<rparr>;
             st = pollEvents sn addr popts fetches
         in Tracking rpc'
              (st\<lparr>effects :=
                    eff @ [StartSpinner ''Connecting to RPC and starting tracker...'',
                           SucceedSpinner ''Tracker running. Listening for events.'']
                    @ effects st\<rparr>)))"

section \<open>Notions for the statements\<close>

text \<open>
  The data model's records, as far as the tracker depends on them. A version is
  \<^emph>\<open>numeric\<close> when it is not \<open>null\<close> and \<open>Number\<close> gives a number for it (the
  unsigned integers of the node, sent as numbers or as strings of digits).
\<close>

definition numeric :: "(string \<Rightarrow> jsnum) \<Rightarrow> jsval \<Rightarrow> bool" where
  "numeric sn v = (v \<noteq> JNull \<and> Number sn v \<noteq> NaN)"

definition has_numeric_version :: "(string \<Rightarrow> jsnum) \<Rightarrow> jsval \<Rightarrow> bool" where
  "has_numeric_version sn txn =
     (case get_prop txn ''version'' of Inl e \<Rightarrow> False | Inr v \<Rightarrow> numeric sn v)"

text \<open>\<open>txn.version\<close>, where the read does not raise.\<close>

definition version_of :: "jsval \<Rightarrow> jsval" where
  "version_of txn = (case get_prop txn ''version'' of Inl e \<Rightarrow> JUndefined | Inr v \<Rightarrow> v)"

text \<open>
  The guard of line 63 for the transaction \<open>txn\<close> when the watermark is \<open>w\<close>: the
  watermark is set and the version is at most the watermark, as numbers.
\<close>

definition stale :: "(string \<Rightarrow> jsnum) \<Rightarrow> jsval \<Rightarrow> jsval \<Rightarrow> bool" where
  "stale sn w txn =
     (case get_prop txn ''version'' of
        Inl e \<Rightarrow> False
      | Inr v \<Rightarrow> w \<noteq> JNull \<and> num_le (Number sn v) (Number sn w))"

text \<open>\<open>a\<close>'s version is below \<open>b\<close>'s, as numbers.\<close>

definition version_lt :: "(string \<Rightarrow> jsnum) \<Rightarrow> jsval \<Rightarrow> jsval \<Rightarrow> bool" where
  "version_lt sn a b =
     (num_le (Number sn (version_of a)) (Number sn (version_of b))
      \<and> \<not> num_le (Number sn (version_of b)) (Number sn (version_of a)))"

text \<open>The events the inner loop runs through (line 64 and the head of line 65).\<close>

definition events_of :: "jsval \<Rightarrow> error + jsval list" where
  "events_of txn = andThen (get_prop txn ''events'') (\<lambda>ev. iterate (js_or ev (JArr [])))"

text \<open>
  An event on which reading and parsing the type cannot raise: it is not \<open>null\<close> or
  \<open>undefined\<close>, and its \<open>type\<close> is a string or is falsy.
\<close>

definition event_ok :: "jsval \<Rightarrow> bool" where
  "event_ok evt =
     (case get_prop evt ''type'' of
        Inl e \<Rightarrow> False
      | Inr ty \<Rightarrow> \<not> truthy ty \<or> (case ty of JStr s \<Rightarrow> True | _ \<Rightarrow> False))"

text \<open>
  A transaction record: a numeric version, and events that can be run through and are
  all as above.
\<close>

definition record_ok :: "(string \<Rightarrow> jsnum) \<Rightarrow> jsval \<Rightarrow> bool" where
  "record_ok sn txn =
     (has_numeric_version sn txn
      \<and> (case events_of txn of Inl e \<Rightarrow> False | Inr evts \<Rightarrow> list_all event_ok evts))"

text \<open>
  What the inner loop's body writes for one event, and for all the events of a
  transaction, one after the other.
\<close>

definition emitted :: "options \<Rightarrow> jsval \<Rightarrow> effect list" where
  "emitted opts evt =
     effects (snd (eventBody opts evt \<lparr>lastSeenVersion = JNull, effects = []\<rparr>))"

definition txn_emitted :: "options \<Rightarrow> jsval \<Rightarrow> effect list" where
  "txn_emitted opts txn =
     (case events_of txn of Inl e \<Rightarrow> [] | Inr evts \<Rightarrow> concat (map (emitted opts) evts))"

text \<open>
  The transactions of a sequence (in processing order) that pass the guard, the
  watermark moving to each one that passes.
\<close>

fun accepted :: "(string \<Rightarrow> jsnum) \<Rightarrow> jsval \<Rightarrow> jsval list \<Rightarrow> jsval list" where
  "accepted sn w [] = []"
| "accepted sn w (txn # txns) =
     (if stale sn w txn then accepted sn w txns
      else txn # accepted sn (version_of txn) txns)"

text \<open>The watermark after these transactions have been processed.\<close>

definition watermark_after :: "jsval \<Rightarrow> jsval list \<Rightarrow> jsval" where
  "watermark_after w txns = (if txns = [] then w else version_of (last txns))"

text \<open>
  The order of watermarks: unset is below every watermark, and a set watermark is below
  a set one whose number is at least its own.
\<close>

definition watermark_le :: "(string \<Rightarrow> jsnum) \<Rightarrow> jsval \<Rightarrow> jsval \<Rightarrow> bool" where
  "watermark_le sn w w' = (w = JNull \<or> (w' \<noteq> JNull \<and> num_le (Number sn w) (Number sn w')))"

text \<open>A watermark is unset or numeric.\<close>

definition watermark_ok :: "(string \<Rightarrow> jsnum) \<Rightarrow> jsval \<Rightarrow> bool" where
  "watermark_ok sn w = (w = JNull \<or> numeric sn w)"

text \<open>
  The transactions a run has been shown, from the outcomes of its fetches; a fetch all
  of whose transactions have numeric versions, or are records as above.
\<close>

definition observed :: "(error + jsval) list \<Rightarrow> jsval list" where
  "observed fetches =
     concat (map (\<lambda>f. case f of Inl e \<Rightarrow> [] | Inr txns \<Rightarrow> ordered_of txns) fetches)"

definition fetch_numeric :: "(string \<Rightarrow> jsnum) \<Rightarrow> error + jsval \<Rightarrow> bool" where
  "fetch_numeric sn f =
     (case f of Inl e \<Rightarrow> True
      | Inr txns \<Rightarrow> list_all (has_numeric_version sn) (ordered_of txns))"

definition fetch_ok :: "(string \<Rightarrow> jsnum) \<Rightarrow> error + jsval \<Rightarrow> bool" where
  "fetch_ok sn f =
     (case f of Inl e \<Rightarrow> True
      | Inr txns \<Rightarrow> list_all (record_ok sn) (ordered_of txns))"

text \<open>
  For the lines of \<open>formatEvent\<close>: the five kinds it knows, the \<open>data\<close> it
  renders (\<open>evt.data || {}\<close>), the value of \<open>data.k\<close> there, and the line of an
  event that it formats.
\<close>

definition known_kinds :: "string list" where
  "known_kinds =
     [''DrillingStartedEvent'', ''DrillingCompletedEvent'', ''TransportationEvent'',
      ''RefiningEvent'', ''DeliveryEvent'']"

definition field :: "jsval \<Rightarrow> string \<Rightarrow> jsval" where
  "field v k = (case get_prop v k of Inl e \<Rightarrow> JUndefined | Inr x \<Rightarrow> x)"

definition data_of :: "jsval \<Rightarrow> jsval" where
  "data_of evt = js_or (field evt ''data'') (JObj [])"

definition line_of :: "jsval \<Rightarrow> line" where
  "line_of evt = (case formatEvent evt of Inl e \<Rightarrow> [] | Inr l \<Rightarrow> l)"

section \<open>Sample records\<close>

text \<open>
  Records as the node sends them, for the instances of the statements below: events of
  the supply chain module (and one of another module), and a transaction with a
  version and events.
\<close>

definition drilling_started :: "string \<Rightarrow> jsval" where
  "drilling_started b =
     JObj [(''type'', JStr ''0xabc::oil_supply_chain::DrillingStartedEvent''),
           (''data'', JObj [(''batch_id'', JStr b), (''location'', JStr ''Field-A''),
                            (''quantity'', JNum 100), (''unit'', JStr ''bbl'')])]"

definition delivery :: "string \<Rightarrow> jsval" where
  "delivery b =
     JObj [(''type'', JStr ''0xabc::oil_supply_chain::DeliveryEvent''),
           (''data'', JObj [(''batch_id'', JStr b), (''destination'', JStr ''Depot-7'')])]"

definition other_module_event :: jsval where
  "other_module_event =
     JObj [(''type'', JStr ''0xabc::other_module::DeliveryEvent''),
           (''data'', JObj [(''batch_id'', JStr ''BATCH-1'')])]"

definition inspection :: jsval where
  "inspection =
     JObj [(''type'', JStr ''0xabc::oil_supply_chain::InspectionEvent''),
           (''data'', JObj [(''inspector'', JStr ''QA'')])]"

text \<open>An event whose \<open>type\<close> is a number, not a string.\<close>

definition mistyped :: jsval where
  "mistyped = JObj [(''type'', JNum 7), (''data'', JObj [(''batch_id'', JStr ''B9'')])]"

definition txn_at :: "jsval \<Rightarrow> jsval list \<Rightarrow> jsval" where
  "txn_at v evts = JObj [(''version'', v), (''events'', JArr evts)]"

definition txn10 :: jsval where
  "txn10 = txn_at (JStr ''10'') [drilling_started ''B1'']"

definition txn11 :: jsval where
  "txn11 = txn_at (JStr ''11'') [delivery ''B1'']"

definition txn12 :: jsval where
  "txn12 = txn_at (JStr ''12'') [delivery ''B2'']"

definition supply_chain :: options where
  "supply_chain =
     \<lparr>moduleFilter = JStr ''oil_supply_chain'', batchId = JNull, intervalMs = Fin 5000\<rparr>"

definition track_opts :: "string \<Rightarrow> trackOpts" where
  "track_opts network =
     \<lparr>opt_address = Some ''0xabc'', opt_module = None, opt_batch = None,
      opt_network = Some network, opt_interval = None\<rparr>"

definition fresh :: poller where
  "fresh = \<lparr>lastSeenVersion = JNull, effects = []\<rparr>"

section \<open>Splitting\<close>

lemma split_colons_nonempty: "split_colons s \<noteq> []"
  by (induction s rule: split_colons.induct) (auto split: list.splits)

lemma join_split_colons: "join_colons (split_colons s) = s"
proof (induction s rule: split_colons.induct)
  case (1 c d cs)
  show ?case
  proof (cases "c = CHR '':'' \<and> d = CHR '':''")
    case True
    with 1 show ?thesis
      using split_colons_nonempty [of cs] by (cases "split_colons cs") auto
  next
    case False
    obtain p ps where sp: "split_colons (d # cs) = p # ps"
      using split_colons_nonempty [of "d # cs"] by (cases "split_colons (d # cs)") auto
    have j: "join_colons ((c # p) # ps) = c # join_colons (p # ps)"
      by (cases ps) auto
    from False sp have "split_colons (c # d # cs) = (c # p) # ps"
      by auto
    moreover from 1(2) [OF False] sp have "join_colons (p # ps) = d # cs"
      by simp
    ultimately show ?thesis using j by simp
  qed
qed auto

lemma split_colons_plain: "CHR '':'' \<notin> set p \<Longrightarrow> split_colons p = [p]"
  by (induction p rule: split_colons.induct) auto

lemma split_colons_append:
  "CHR '':'' \<notin> set p \<Longrightarrow>
     split_colons (p @ CHR '':'' # CHR '':'' # s) = p # split_colons s"
proof (induction p)
  case Nil
  then show ?case by simp
next
  case (Cons c p)
  then have c: "c \<noteq> CHR '':''" by auto
  from Cons have ih: "split_colons (p @ CHR '':'' # CHR '':'' # s) = p # split_colons s"
    by simp
  obtain d ds where ds: "p @ CHR '':'' # CHR '':'' # s = d # ds" by (cases p) auto
  with c ih show ?case by simp
qed

lemma split_join_colons:
  "ps \<noteq> [] \<Longrightarrow> \<forall>p \<in> set ps. CHR '':'' \<notin> set p \<Longrightarrow> split_colons (join_colons ps) = ps"
proof (induction ps rule: join_colons.induct)
  case 1
  then show ?case by simp
next
  case (2 p)
  then show ?case by (simp add: split_colons_plain)
next
  case (3 p q ps)
  then show ?case by (simp add: split_colons_append)
qed

section \<open>Numbers, properties and events: basic facts\<close>

lemma num_le_refl: "a \<noteq> NaN \<Longrightarrow> num_le a a"
  by (cases a) auto

lemma num_le_trans: "num_le a b \<Longrightarrow> num_le b c \<Longrightarrow> num_le a c"
  by (cases a; cases b; cases c) auto

lemma num_le_total: "a \<noteq> NaN \<Longrightarrow> b \<noteq> NaN \<Longrightarrow> num_le a b \<or> num_le b a"
  by (cases a; cases b) auto

lemma get_prop_Inr_iff: "(\<exists>x. get_prop v k = Inr x) = (v \<noteq> JNull \<and> v \<noteq> JUndefined)"
  by (cases v) auto

lemma get_prop_other: "get_prop v k = Inr x \<Longrightarrow> \<exists>y. get_prop v k' = Inr y"
  by (cases v) auto

lemma get_prop_truthy: "truthy v \<Longrightarrow> \<exists>x. get_prop v k = Inr x"
  by (cases v) auto

lemma get_prop_data: "\<exists>x. get_prop (js_or d (JObj [])) k = Inr x"
  by (rule get_prop_truthy) (simp add: js_or_def)

lemma formatEvent_parsed:
  assumes "get_prop evt ''type'' = Inr ty" "parseEventType (js_or ty (JStr '''')) = Inr q"
  shows "\<exists>l. formatEvent evt = Inr l"
proof -
  obtain d where d: "get_prop evt ''data'' = Inr d"
    using get_prop_other [OF assms(1)] by blast
  obtain f where f: "\<And>k. get_prop (js_or d (JObj [])) k = Inr (f k)"
    using get_prop_data [of d] by metis
  show ?thesis
    by (cases q) (simp_all add: formatEvent_def andThen_def assms d f Let_def)
qed

lemma eventBody_frame:
  "eventBody opts evt st =
     (fst (eventBody opts evt \<lparr>lastSeenVersion = JNull, effects = []\<rparr>),
      st\<lparr>effects := effects st @ emitted opts evt\<rparr>)"
  by (simp add: eventBody_def emitted_def log_def Let_def split: sum.splits option.splits bool.splits)

lemma event_ok_parse:
  assumes "event_ok evt"
  shows "\<exists>ty q. get_prop evt ''type'' = Inr ty \<and> parseEventType (js_or ty (JStr '''')) = Inr q"
proof -
  from assms obtain ty where ty: "get_prop evt ''type'' = Inr ty"
    and c: "\<not> truthy ty \<or> (\<exists>s. ty = JStr s)"
    by (auto simp: event_ok_def split: sum.splits jsval.splits)
  from c have "\<exists>s. js_or ty (JStr '''') = JStr s"
    by (auto simp: js_or_def)
  then obtain s where "js_or ty (JStr '''') = JStr s" ..
  then have "\<exists>q. parseEventType (js_or ty (JStr '''')) = Inr q"
    by (simp add: Let_def)
  with ty show ?thesis by blast
qed

lemma event_ok_no_raise:
  assumes "event_ok evt"
  shows "fst (eventBody opts evt st) = None"
proof -
  obtain ty q where ty: "get_prop evt ''type'' = Inr ty"
    and q: "parseEventType (js_or ty (JStr '''')) = Inr q"
    using event_ok_parse [OF assms] by blast
  obtain l where l: "formatEvent evt = Inr l"
    using formatEvent_parsed [OF ty q] by blast
  obtain d where d: "get_prop evt ''data'' = Inr d"
    using get_prop_other [OF ty] by blast
  have b: "\<exists>b. get_prop_opt d ''batch_id'' = Inr b"
    using get_prop_Inr_iff [of d "''batch_id''"] by (auto simp: get_prop_opt_def)
  then obtain b where b: "get_prop_opt d ''batch_id'' = Inr b" ..
  show ?thesis
    by (cases q) (simp_all add: eventBody_def andThen_def ty q l d b Let_def split: bool.splits)
qed

lemma forOf_events_frame:
  "list_all event_ok evts \<Longrightarrow>
   forOf (eventBody opts) evts st =
     (None, st\<lparr>effects := effects st @ concat (map (emitted opts) evts)\<rparr>)"
proof (induction evts arbitrary: st)
  case Nil
  then show ?case by simp
next
  case (Cons evt evts)
  from Cons.prems have ok: "event_ok evt" and oks: "list_all event_ok evts" by auto
  have "eventBody opts evt st = (None, st\<lparr>effects := effects st @ emitted opts evt\<rparr>)"
    using eventBody_frame [of opts evt st] event_ok_no_raise [OF ok] by simp
  then show ?case using Cons.IH [OF oks] by simp
qed


section \<open>One transaction\<close>

lemma forOf_append:
  "forOf body (xs @ ys) st =
     (case forOf body xs st of (Some e, st') \<Rightarrow> (Some e, st') | (None, st') \<Rightarrow> forOf body ys st')"
  by (induction xs arbitrary: st) (auto split: prod.splits option.splits)

lemma eventBody_watermark: "lastSeenVersion (snd (eventBody opts evt st)) = lastSeenVersion st"
  using eventBody_frame [of opts evt st] by simp

lemma forOf_events_watermark:
  "lastSeenVersion (snd (forOf (eventBody opts) evts st)) = lastSeenVersion st"
proof (induction evts arbitrary: st)
  case Nil
  then show ?case by simp
next
  case (Cons evt evts)
  show ?case
    using eventBody_watermark [of opts evt st] Cons.IH
    by (cases "eventBody opts evt st") (auto split: option.splits)
qed

lemma txnBody_stale: "stale sn (lastSeenVersion st) txn \<Longrightarrow> txnBody sn opts txn st = (None, st)"
  by (auto simp: stale_def txnBody_def split: sum.splits)

lemma txnBody_fresh:
  assumes "record_ok sn txn" "\<not> stale sn (lastSeenVersion st) txn"
  shows "txnBody sn opts txn st =
     (None, st\<lparr>effects := effects st @ txn_emitted opts txn,
                lastSeenVersion := version_of txn\<rparr>)"
proof -
  from assms(1) obtain v evts where v: "get_prop txn ''version'' = Inr v"
    and evts: "events_of txn = Inr evts" and ok: "list_all event_ok evts"
    by (auto simp: record_ok_def has_numeric_version_def split: sum.splits)
  from assms(2) v have g: "\<not> (lastSeenVersion st \<noteq> JNull
      \<and> num_le (Number sn v) (Number sn (lastSeenVersion st)))"
    by (simp add: stale_def)
  from evts have ev: "andThen (get_prop txn ''events'') (\<lambda>ev. iterate (js_or ev (JArr []))) = Inr evts"
    by (simp add: events_of_def)
  show ?thesis
    unfolding txnBody_def v ev
    using g forOf_events_frame [OF ok, of opts st]
    by (auto simp: txn_emitted_def evts version_of_def v)
qed

text \<open>What one transaction does to the watermark, whatever happens.\<close>

lemma txnBody_watermark:
  "lastSeenVersion (snd (txnBody sn opts txn st)) = lastSeenVersion st
   \<or> (lastSeenVersion (snd (txnBody sn opts txn st)) = version_of txn
       \<and> \<not> stale sn (lastSeenVersion st) txn)"
proof (cases "get_prop txn ''version''")
  case (Inl e)
  then show ?thesis by (simp add: txnBody_def)
next
  case (Inr v)
  show ?thesis
  proof (cases "stale sn (lastSeenVersion st) txn")
    case True
    then show ?thesis by (simp add: txnBody_stale)
  next
    case False
    with Inr have g: "\<not> (lastSeenVersion st \<noteq> JNull
      \<and> num_le (Number sn v) (Number sn (lastSeenVersion st)))"
      by (simp add: stale_def)
    show ?thesis
    proof (cases "andThen (get_prop txn ''events'') (\<lambda>ev. iterate (js_or ev (JArr [])))")
      case (Inl e)
      with Inr g show ?thesis by (simp add: txnBody_def)
    next
      case ev: (Inr evts)
      obtain r st' where f: "forOf (eventBody opts) evts st = (r, st')"
        by (cases "forOf (eventBody opts) evts st")
      then have "lastSeenVersion st' = lastSeenVersion st"
        using forOf_events_watermark [of opts evts st] by simp
      with Inr g ev f False show ?thesis
        by (cases r) (simp_all add: txnBody_def version_of_def)
    qed
  qed
qed


section \<open>The watermark only moves up\<close>

lemma watermark_le_refl: "watermark_ok sn w \<Longrightarrow> watermark_le sn w w"
  by (auto simp: watermark_le_def watermark_ok_def numeric_def num_le_refl)

lemma watermark_le_trans:
  "watermark_le sn a b \<Longrightarrow> watermark_le sn b c \<Longrightarrow> watermark_le sn a c"
  by (auto simp: watermark_le_def intro: num_le_trans)

lemma stale_mono: "stale sn w t \<Longrightarrow> watermark_le sn w w' \<Longrightarrow> stale sn w' t"
  by (auto simp: stale_def watermark_le_def split: sum.splits intro: num_le_trans)

lemma record_ok_numeric: "record_ok sn t \<Longrightarrow> has_numeric_version sn t"
  by (simp add: record_ok_def)

lemma list_all_record_ok_numeric:
  "list_all (record_ok sn) xs \<Longrightarrow> list_all (has_numeric_version sn) xs"
  by (induction xs) (auto simp: record_ok_numeric)

lemma numeric_version_of:
  "has_numeric_version sn t \<Longrightarrow>
     get_prop t ''version'' = Inr (version_of t) \<and> numeric sn (version_of t)"
  by (auto simp: has_numeric_version_def version_of_def split: sum.splits)

lemma stale_self: "has_numeric_version sn t \<Longrightarrow> stale sn (version_of t) t"
  using numeric_version_of [of sn t]
  by (auto simp: stale_def numeric_def num_le_refl)

lemma fresh_watermark_le:
  assumes "has_numeric_version sn t" "watermark_ok sn w" "\<not> stale sn w t"
  shows "watermark_le sn w (version_of t)"
proof -
  from assms(1) have v: "get_prop t ''version'' = Inr (version_of t)"
    and n: "version_of t \<noteq> JNull" "Number sn (version_of t) \<noteq> NaN"
    using numeric_version_of [of sn t] by (auto simp: numeric_def)
  show ?thesis
  proof (cases "w = JNull")
    case True
    then show ?thesis by (simp add: watermark_le_def)
  next
    case False
    with assms(2) have "Number sn w \<noteq> NaN" by (simp add: watermark_ok_def numeric_def)
    moreover from assms(3) v False have "\<not> num_le (Number sn (version_of t)) (Number sn w)"
      by (simp add: stale_def)
    ultimately have "num_le (Number sn w) (Number sn (version_of t))"
      using num_le_total n(2) by blast
    with n(1) show ?thesis by (simp add: watermark_le_def)
  qed
qed

lemma txnBody_step:
  assumes "has_numeric_version sn t" "watermark_ok sn (lastSeenVersion st)"
  shows "watermark_ok sn (lastSeenVersion (snd (txnBody sn opts t st)))
         \<and> watermark_le sn (lastSeenVersion st) (lastSeenVersion (snd (txnBody sn opts t st)))"
proof -
  from txnBody_watermark [of sn opts t st]
  consider "lastSeenVersion (snd (txnBody sn opts t st)) = lastSeenVersion st"
    | "lastSeenVersion (snd (txnBody sn opts t st)) = version_of t"
      "\<not> stale sn (lastSeenVersion st) t"
    by blast
  then show ?thesis
  proof cases
    case 1
    with assms(2) show ?thesis by (simp add: watermark_le_refl)
  next
    case 2
    with assms show ?thesis
      using fresh_watermark_le [of sn t "lastSeenVersion st"] numeric_version_of [of sn t]
      by (simp add: watermark_ok_def)
  qed
qed

lemma forOf_txns_step:
  assumes "list_all (has_numeric_version sn) xs" "watermark_ok sn (lastSeenVersion st)"
  shows "watermark_ok sn (lastSeenVersion (snd (forOf (txnBody sn opts) xs st)))
         \<and> watermark_le sn (lastSeenVersion st)
              (lastSeenVersion (snd (forOf (txnBody sn opts) xs st)))"
  using assms
proof (induction xs arbitrary: st)
  case Nil
  then show ?case by (simp add: watermark_le_refl)
next
  case (Cons t ts)
  from Cons.prems have t: "has_numeric_version sn t"
    and ts: "list_all (has_numeric_version sn) ts" by auto
  obtain r st1 where b: "txnBody sn opts t st = (r, st1)" by (cases "txnBody sn opts t st")
  from txnBody_step [OF t Cons.prems(2), of opts] b
  have s1: "watermark_ok sn (lastSeenVersion st1)"
    and l1: "watermark_le sn (lastSeenVersion st) (lastSeenVersion st1)" by auto
  show ?case
  proof (cases r)
    case None
    from Cons.IH [OF ts s1] l1 b None show ?thesis
      by (auto intro: watermark_le_trans)
  next
    case (Some e)
    with b s1 l1 show ?thesis by simp
  qed
qed

lemma pollCycle_watermark:
  "lastSeenVersion (pollCycle sn opts fetched st) =
     (case fetched of Inl e \<Rightarrow> lastSeenVersion st
      | Inr txns \<Rightarrow> lastSeenVersion (snd (forOf (txnBody sn opts) (ordered_of txns) st)))"
  by (auto simp: pollCycle_def log_def catch_warning_def split: sum.splits prod.splits option.splits)

lemma pollCycle_step:
  assumes "fetch_numeric sn f" "watermark_ok sn (lastSeenVersion st)"
  shows "watermark_ok sn (lastSeenVersion (pollCycle sn opts f st))
         \<and> watermark_le sn (lastSeenVersion st) (lastSeenVersion (pollCycle sn opts f st))"
proof (cases f)
  case (Inl e)
  with assms(2) show ?thesis by (simp add: pollCycle_watermark watermark_le_refl)
next
  case (Inr txns)
  with assms(1) have "list_all (has_numeric_version sn) (ordered_of txns)"
    by (simp add: fetch_numeric_def)
  from forOf_txns_step [OF this assms(2), of opts] Inr show ?thesis
    by (simp add: pollCycle_watermark)
qed

lemma pollLoop_step:
  assumes "list_all (fetch_numeric sn) fs" "watermark_ok sn (lastSeenVersion st)"
  shows "watermark_ok sn (lastSeenVersion (pollLoop sn opts fs st))
         \<and> watermark_le sn (lastSeenVersion st) (lastSeenVersion (pollLoop sn opts fs st))"
  using assms
proof (induction fs arbitrary: st)
  case Nil
  then show ?case by (simp add: watermark_le_refl)
next
  case (Cons f fs)
  from Cons.prems have f: "fetch_numeric sn f" and fs: "list_all (fetch_numeric sn) fs" by auto
  from pollCycle_step [OF f Cons.prems(2), of opts]
  have s1: "watermark_ok sn (lastSeenVersion (pollCycle sn opts f st))"
    and l1: "watermark_le sn (lastSeenVersion st) (lastSeenVersion (pollCycle sn opts f st))"
    by auto
  from Cons.IH [OF fs s1] l1 show ?case
    by (auto intro: watermark_le_trans)
qed

lemma pollLoop_append:
  "pollLoop sn opts (fs @ gs) st = pollLoop sn opts gs (pollLoop sn opts fs st)"
  by (induction fs arbitrary: st) auto


section \<open>A batch of transactions\<close>

lemma watermark_after_Cons:
  "watermark_after w (t # ys) = watermark_after (version_of t) ys"
  by (simp add: watermark_after_def)

lemma forOf_txns_accepted:
  assumes "list_all (record_ok sn) xs"
  shows "forOf (txnBody sn opts) xs st =
     (None, \<lparr>lastSeenVersion = watermark_after (lastSeenVersion st) (accepted sn (lastSeenVersion st) xs),
             effects = effects st @ concat (map (txn_emitted opts) (accepted sn (lastSeenVersion st) xs))\<rparr>)"
  using assms
proof (induction xs arbitrary: st)
  case Nil
  then show ?case by (simp add: watermark_after_def)
next
  case (Cons t ts)
  from Cons.prems have t: "record_ok sn t" and ts: "list_all (record_ok sn) ts" by auto
  show ?case
  proof (cases "stale sn (lastSeenVersion st) t")
    case True
    then show ?thesis using Cons.IH [OF ts, of st] by (simp add: txnBody_stale)
  next
    case False
    let ?st1 = "st\<lparr>effects := effects st @ txn_emitted opts t, lastSeenVersion := version_of t\<rparr>"
    from txnBody_fresh [OF t False, of opts]
    have "forOf (txnBody sn opts) (t # ts) st = forOf (txnBody sn opts) ts ?st1" by simp
    also have "\<dots> = (None, \<lparr>lastSeenVersion = watermark_after (version_of t) (accepted sn (version_of t) ts),
             effects = (effects st @ txn_emitted opts t)
                 @ concat (map (txn_emitted opts) (accepted sn (version_of t) ts))\<rparr>)"
      using Cons.IH [OF ts, of ?st1] by simp
    finally show ?thesis using False by (simp add: watermark_after_Cons)
  qed
qed

lemma accepted_above:
  assumes "list_all (has_numeric_version sn) xs" "watermark_ok sn w" "u \<in> set (accepted sn w xs)"
  shows "\<not> stale sn w u"
  using assms
proof (induction xs arbitrary: w)
  case Nil
  then show ?case by simp
next
  case (Cons t ts)
  from Cons.prems have t: "has_numeric_version sn t"
    and ts: "list_all (has_numeric_version sn) ts" by auto
  show ?case
  proof (cases "stale sn w t")
    case True
    with Cons.prems Cons.IH [OF ts] show ?thesis by simp
  next
    case False
    have le: "watermark_le sn w (version_of t)"
      by (rule fresh_watermark_le [OF t Cons.prems(2) False])
    have ok: "watermark_ok sn (version_of t)"
      using numeric_version_of [OF t] by (simp add: watermark_ok_def)
    from Cons.prems(3) False consider "u = t" | "u \<in> set (accepted sn (version_of t) ts)"
      by auto
    then show ?thesis
    proof cases
      case 1
      with False show ?thesis by simp
    next
      case 2
      from Cons.IH [OF ts ok 2] have "\<not> stale sn (version_of t) u" .
      with le show ?thesis using stale_mono by blast
    qed
  qed
qed

lemma accepted_subset: "set (accepted sn w xs) \<subseteq> set xs"
  by (induction xs arbitrary: w) auto

lemma fresh_version_lt:
  assumes "has_numeric_version sn t" "has_numeric_version sn u" "\<not> stale sn (version_of t) u"
  shows "version_lt sn t u"
proof -
  from numeric_version_of [OF assms(1)] numeric_version_of [OF assms(2)]
  have t: "version_of t \<noteq> JNull" "Number sn (version_of t) \<noteq> NaN"
    and u: "get_prop u ''version'' = Inr (version_of u)" "Number sn (version_of u) \<noteq> NaN"
    by (auto simp: numeric_def)
  from assms(3) u(1) t(1) have n: "\<not> num_le (Number sn (version_of u)) (Number sn (version_of t))"
    by (simp add: stale_def)
  with num_le_total [OF t(2) u(2)] show ?thesis by (simp add: version_lt_def)
qed

lemma accepted_sorted:
  assumes "list_all (has_numeric_version sn) xs" "watermark_ok sn w"
  shows "sorted_wrt (version_lt sn) (accepted sn w xs)"
  using assms
proof (induction xs arbitrary: w)
  case Nil
  then show ?case by simp
next
  case (Cons t ts)
  from Cons.prems have t: "has_numeric_version sn t"
    and ts: "list_all (has_numeric_version sn) ts" by auto
  have ok: "watermark_ok sn (version_of t)"
    using numeric_version_of [OF t] by (simp add: watermark_ok_def)
  show ?case
  proof (cases "stale sn w t")
    case True
    with Cons.IH [OF ts Cons.prems(2)] show ?thesis by simp
  next
    case False
    have "version_lt sn t u" if u: "u \<in> set (accepted sn (version_of t) ts)" for u
    proof -
      from u accepted_subset have "u \<in> set ts" by blast
      with ts have "has_numeric_version sn u" by (simp add: list_all_iff)
      with accepted_above [OF ts ok u] t show ?thesis by (simp add: fresh_version_lt)
    qed
    with False Cons.IH [OF ts ok] show ?thesis by simp
  qed
qed

lemma version_lt_fresh: "version_lt sn t u \<Longrightarrow> \<not> stale sn (version_of t) u"
  by (auto simp: version_lt_def stale_def version_of_def split: sum.splits)

lemma version_lt_stale:
  "version_lt sn u t \<Longrightarrow> has_numeric_version sn t \<Longrightarrow> has_numeric_version sn u
     \<Longrightarrow> stale sn (version_of t) u"
  using numeric_version_of [of sn t] numeric_version_of [of sn u]
  by (auto simp: version_lt_def stale_def numeric_def)

lemma accepted_all_fresh:
  "sorted_wrt (version_lt sn) xs \<Longrightarrow> \<forall>t \<in> set xs. \<not> stale sn w t \<Longrightarrow> accepted sn w xs = xs"
proof (induction xs arbitrary: w)
  case Nil
  then show ?case by simp
next
  case (Cons t ts)
  then have "\<forall>u \<in> set ts. \<not> stale sn (version_of t) u"
    by (auto simp: version_lt_fresh)
  with Cons show ?case by simp
qed

lemma accepted_ascending:
  assumes "sorted_wrt (version_lt sn) xs" "list_all (has_numeric_version sn) xs"
    "watermark_ok sn w"
  shows "accepted sn w xs = filter (\<lambda>t. \<not> stale sn w t) xs"
  using assms
proof (induction xs)
  case Nil
  then show ?case by simp
next
  case (Cons t ts)
  from Cons.prems have t: "has_numeric_version sn t"
    and ts: "list_all (has_numeric_version sn) ts"
    and s: "sorted_wrt (version_lt sn) ts" and lt: "\<forall>u \<in> set ts. version_lt sn t u" by auto
  show ?case
  proof (cases "stale sn w t")
    case True
    with Cons.IH [OF s ts Cons.prems(3)] show ?thesis by simp
  next
    case False
    have le: "watermark_le sn w (version_of t)"
      by (rule fresh_watermark_le [OF t Cons.prems(3) False])
    from lt have f1: "\<forall>u \<in> set ts. \<not> stale sn (version_of t) u"
      by (auto simp: version_lt_fresh)
    with le have f2: "\<forall>u \<in> set ts. \<not> stale sn w u"
      using stale_mono by blast
    from f1 s have "accepted sn (version_of t) ts = ts" by (rule accepted_all_fresh [rotated])
    moreover from f2 have "filter (\<lambda>t. \<not> stale sn w t) ts = ts" by simp
    ultimately show ?thesis using False by simp
  qed
qed

lemma accepted_all_stale: "\<forall>u \<in> set xs. stale sn w u \<Longrightarrow> accepted sn w xs = []"
  by (induction xs) auto

lemma forOf_txns_filter:
  assumes "list_all (has_numeric_version sn) xs" "watermark_ok sn (lastSeenVersion st)"
    "watermark_le sn w (lastSeenVersion st)"
  shows "forOf (txnBody sn opts) (filter (\<lambda>t. \<not> stale sn w t) xs) st
         = forOf (txnBody sn opts) xs st"
  using assms
proof (induction xs arbitrary: st)
  case Nil
  then show ?case by simp
next
  case (Cons t ts)
  from Cons.prems have t: "has_numeric_version sn t"
    and ts: "list_all (has_numeric_version sn) ts" by auto
  show ?case
  proof (cases "stale sn w t")
    case True
    with Cons.prems(3) have "stale sn (lastSeenVersion st) t" by (rule stale_mono [rotated])
    then have "txnBody sn opts t st = (None, st)" by (rule txnBody_stale)
    with True Cons.IH [OF ts Cons.prems(2,3)] show ?thesis by simp
  next
    case False
    obtain r st1 where b: "txnBody sn opts t st = (r, st1)" by (cases "txnBody sn opts t st")
    from txnBody_step [OF t Cons.prems(2), of opts] b
    have s1: "watermark_ok sn (lastSeenVersion st1)"
      and l1: "watermark_le sn (lastSeenVersion st) (lastSeenVersion st1)" by auto
    from Cons.prems(3) l1 have "watermark_le sn w (lastSeenVersion st1)"
      by (rule watermark_le_trans)
    from Cons.IH [OF ts s1 this] False b show ?thesis
      by (cases r) simp_all
  qed
qed

lemma forOf_txns_all_stale:
  assumes "list_all (has_numeric_version sn) xs" "watermark_ok sn (lastSeenVersion st)"
    "forOf (txnBody sn opts) xs st = (None, st')"
  shows "\<forall>t \<in> set xs. stale sn (lastSeenVersion st') t"
  using assms
proof (induction xs arbitrary: st)
  case Nil
  then show ?case by simp
next
  case (Cons t ts)
  from Cons.prems have t: "has_numeric_version sn t"
    and ts: "list_all (has_numeric_version sn) ts" by auto
  obtain r st1 where b: "txnBody sn opts t st = (r, st1)" by (cases "txnBody sn opts t st")
  with Cons.prems(3) have r: "r = None" and rest: "forOf (txnBody sn opts) ts st1 = (None, st')"
    by (auto split: option.splits)
  from txnBody_step [OF t Cons.prems(2), of opts] b
  have s1: "watermark_ok sn (lastSeenVersion st1)" by auto
  from forOf_txns_step [OF ts s1, of opts] rest
  have l2: "watermark_le sn (lastSeenVersion st1) (lastSeenVersion st')" by simp
  have "stale sn (lastSeenVersion st1) t"
  proof (cases "stale sn (lastSeenVersion st) t")
    case True
    with b show ?thesis by (simp add: txnBody_stale)
  next
    case False
    obtain v where v: "get_prop t ''version'' = Inr v" "version_of t = v"
      using numeric_version_of [OF t] by simp
    from False v have g: "\<not> (lastSeenVersion st \<noteq> JNull
      \<and> num_le (Number sn v) (Number sn (lastSeenVersion st)))"
      by (simp add: stale_def)
    from b r v g have "lastSeenVersion st1 = v"
      by (auto simp: txnBody_def split: sum.splits prod.splits option.splits)
    with v stale_self [OF t] show ?thesis by simp
  qed
  with l2 have "stale sn (lastSeenVersion st') t" by (rule stale_mono [rotated])
  with Cons.IH [OF ts s1 rest] show ?case by simp
qed

lemma forOf_txns_observed:
  "lastSeenVersion (snd (forOf (txnBody sn opts) xs st)) = lastSeenVersion st
   \<or> lastSeenVersion (snd (forOf (txnBody sn opts) xs st)) \<in> version_of ` set xs"
proof (induction xs arbitrary: st)
  case Nil
  then show ?case by simp
next
  case (Cons t ts)
  obtain r st1 where b: "txnBody sn opts t st = (r, st1)" by (cases "txnBody sn opts t st")
  from txnBody_watermark [of sn opts t st] b
  have 1: "lastSeenVersion st1 = lastSeenVersion st \<or> lastSeenVersion st1 = version_of t"
    by auto
  show ?case
  proof (cases r)
    case None
    with b Cons.IH [of st1] 1 show ?thesis by auto
  next
    case (Some e)
    with b 1 show ?thesis by auto
  qed
qed


section \<open>Reading the data of an event\<close>

lemma field_data: "get_prop (data_of evt) k = Inr (field (data_of evt) k)"
  using get_prop_data [of "field evt ''data''" k] by (auto simp: data_of_def field_def)

lemma field_absent:
  "(case v of JObj kvs \<Rightarrow> map_of kvs k = None | _ \<Rightarrow> True) \<Longrightarrow> field v k = JUndefined"
  by (cases v) (auto simp: field_def)


section \<open>A run of cycles\<close>

lemma fetch_ok_numeric: "fetch_ok sn f \<Longrightarrow> fetch_numeric sn f"
  by (auto simp: fetch_ok_def fetch_numeric_def list_all_record_ok_numeric split: sum.splits)

lemma list_all_fetch_ok_numeric:
  "list_all (fetch_ok sn) fs \<Longrightarrow> list_all (fetch_numeric sn) fs"
  by (induction fs) (auto simp: fetch_ok_numeric)

lemma observed_Cons:
  "observed (f # fs) = (case f of Inl e \<Rightarrow> [] | Inr txns \<Rightarrow> ordered_of txns) @ observed fs"
  by (simp add: observed_def)

lemma pollCycle_all_stale:
  assumes "fetch_ok sn (Inr txns)" "watermark_ok sn (lastSeenVersion st)"
  shows "\<forall>t \<in> set (ordered_of txns). stale sn (lastSeenVersion (pollCycle sn opts (Inr txns) st)) t"
proof -
  from assms(1) have ok: "list_all (record_ok sn) (ordered_of txns)"
    by (simp add: fetch_ok_def)
  obtain st' where f: "forOf (txnBody sn opts) (ordered_of txns) st = (None, st')"
    using forOf_txns_accepted [OF ok, of opts st] by simp
  from forOf_txns_all_stale [OF list_all_record_ok_numeric [OF ok] assms(2) f] f
  show ?thesis by (simp add: pollCycle_watermark)
qed

lemma pollLoop_all_stale:
  assumes "list_all (fetch_ok sn) fs" "watermark_ok sn (lastSeenVersion st)"
  shows "\<forall>t \<in> set (observed fs). stale sn (lastSeenVersion (pollLoop sn opts fs st)) t"
  using assms
proof (induction fs arbitrary: st)
  case Nil
  then show ?case by (simp add: observed_def)
next
  case (Cons f fs)
  from Cons.prems have f: "fetch_ok sn f" and fs: "list_all (fetch_ok sn) fs" by auto
  let ?st1 = "pollCycle sn opts f st"
  from pollCycle_step [OF fetch_ok_numeric [OF f] Cons.prems(2), of opts]
  have s1: "watermark_ok sn (lastSeenVersion ?st1)" by simp
  from pollLoop_step [OF list_all_fetch_ok_numeric [OF fs] s1, of opts]
  have l: "watermark_le sn (lastSeenVersion ?st1) (lastSeenVersion (pollLoop sn opts fs ?st1))"
    by simp
  have "stale sn (lastSeenVersion (pollLoop sn opts fs ?st1)) t"
    if t: "t \<in> set (case f of Inl e \<Rightarrow> [] | Inr txns \<Rightarrow> ordered_of txns)" for t
  proof (cases f)
    case (Inl e)
    with t show ?thesis by simp
  next
    case (Inr txns)
    with t f pollCycle_all_stale [of sn txns st opts] Cons.prems(2)
    have "stale sn (lastSeenVersion ?st1) t" by simp
    with l show ?thesis by (rule stale_mono [rotated])
  qed
  with Cons.IH [OF fs s1] show ?case by (auto simp: observed_Cons)
qed

lemma pollLoop_observed:
  "lastSeenVersion (pollLoop sn opts fs st) = lastSeenVersion st
   \<or> lastSeenVersion (pollLoop sn opts fs st) \<in> version_of ` set (observed fs)"
proof (induction fs arbitrary: st)
  case Nil
  then show ?case by simp
next
  case (Cons f fs)
  have 1: "lastSeenVersion (pollCycle sn opts f st) = lastSeenVersion st
     \<or> lastSeenVersion (pollCycle sn opts f st)
          \<in> version_of ` set (case f of Inl e \<Rightarrow> [] | Inr txns \<Rightarrow> ordered_of txns)"
    using forOf_txns_observed [of sn opts _ st]
    by (cases f) (auto simp: pollCycle_watermark)
  with Cons.IH [of "pollCycle sn opts f st"] show ?case
    by (auto simp: observed_Cons)
qed

lemma pollLoop_failures:
  "lastSeenVersion (pollLoop sn opts (map Inl errs) st) = lastSeenVersion st"
  by (induction errs arbitrary: st) (auto simp: pollCycle_watermark)

lemma start_watermark: "lastSeenVersion (start addr opts) = JNull"
  by (simp add: start_def)

lemma pollLoop_prefix:
  assumes "list_all (fetch_numeric sn) fs" "watermark_ok sn (lastSeenVersion st)" "m \<le> n"
  shows "watermark_le sn (lastSeenVersion (pollLoop sn opts (take m fs) st))
           (lastSeenVersion (pollLoop sn opts (take n fs) st))"
proof -
  from assms(3) have "take n fs = take m fs @ drop m (take n fs)"
    by (metis append_take_drop_id min.absorb1 take_take)
  then have e: "pollLoop sn opts (take n fs) st
      = pollLoop sn opts (drop m (take n fs)) (pollLoop sn opts (take m fs) st)"
    using pollLoop_append [of sn opts "take m fs" "drop m (take n fs)" st] by simp
  from assms(1) have a: "list_all (fetch_numeric sn) (take m fs)"
    and b: "list_all (fetch_numeric sn) (drop m (take n fs))"
    by (auto simp: list_all_iff dest: in_set_takeD in_set_dropD)
  from pollLoop_step [OF a assms(2), of opts]
  have "watermark_ok sn (lastSeenVersion (pollLoop sn opts (take m fs) st))" by simp
  from pollLoop_step [OF b this, of opts] e show ?thesis by simp
qed


lemma pollCycle_failure:
  "pollCycle sn opts (Inl err) st =
     \<lparr>lastSeenVersion = lastSeenVersion st,
      effects = effects st @ [LogWarning [Lit ''Polling error: '', Message err],
                              Sleep (intervalMs opts)]\<rparr>"
  by (simp add: pollCycle_def catch_warning_def log_def)

lemma pollLoop_failures_effects:
  "pollLoop sn opts (map Inl errs) st =
     \<lparr>lastSeenVersion = lastSeenVersion st,
      effects = effects st
        @ concat (map (\<lambda>err. [LogWarning [Lit ''Polling error: '', Message err],
                                Sleep (intervalMs opts)]) errs)\<rparr>"
  by (induction errs arbitrary: st) (simp_all add: pollCycle_failure)

section \<open>A cycle on records\<close>

lemma pollCycle_accepted:
  assumes "list_all (record_ok sn) batch"
  shows "pollCycle sn opts (Inr (JArr batch)) st =
     \<lparr>lastSeenVersion =
        watermark_after (lastSeenVersion st) (accepted sn (lastSeenVersion st) (rev batch)),
      effects = effects st
        @ concat (map (txn_emitted opts) (accepted sn (lastSeenVersion st) (rev batch)))
        @ [Sleep (intervalMs opts)]\<rparr>"
proof -
  from assms have "list_all (record_ok sn) (rev batch)" by (simp add: list_all_iff)
  from forOf_txns_accepted [OF this, of opts st] show ?thesis
    by (simp add: pollCycle_def log_def)
qed

lemma txn_emitted_events:
  "events_of t = Inr evts \<Longrightarrow> txn_emitted opts t = concat (map (emitted opts) evts)"
  by (simp add: txn_emitted_def)

lemma sorted_wrt_last:
  "sorted_wrt P xs \<Longrightarrow> xs \<noteq> [] \<Longrightarrow> \<forall>u \<in> set (butlast xs). P u (last xs)"
  by (induction xs) (auto dest: in_set_butlastD)

lemma accepted_newest_first:
  assumes "\<not> stale sn w t" "\<forall>u \<in> set ts. stale sn (version_of t) u"
  shows "accepted sn w (t # ts) = [t]"
  using assms by (simp add: accepted_all_stale)


section \<open>An event that raises; an unregistered network\<close>

lemma events_of_version:
  "events_of txn = Inr evts \<Longrightarrow> get_prop txn ''version'' = Inr (version_of txn)"
  by (cases txn) (auto simp: events_of_def andThen_def version_of_def)

lemma txnBody_event_raises:
  assumes "\<not> stale sn (lastSeenVersion st1) txn"
    and "events_of txn = Inr (evts1 @ evt # evts2)"
    and "forOf (eventBody opts) evts1 st1 = (None, st2)"
    and "eventBody opts evt st2 = (Some e, st3)"
  shows "txnBody sn opts txn st1 = (Some e, st3) \<and> lastSeenVersion st3 = lastSeenVersion st1"
proof -
  have v: "get_prop txn ''version'' = Inr (version_of txn)"
    using assms(2) by (rule events_of_version)
  with assms(1) have g: "\<not> (lastSeenVersion st1 \<noteq> JNull
      \<and> num_le (Number sn (version_of txn)) (Number sn (lastSeenVersion st1)))"
    by (simp add: stale_def)
  from assms(2) have ev: "andThen (get_prop txn ''events'') (\<lambda>ev. iterate (js_or ev (JArr [])))
      = Inr (evts1 @ evt # evts2)"
    by (simp add: events_of_def)
  have f: "forOf (eventBody opts) (evts1 @ evt # evts2) st1 = (Some e, st3)"
    by (simp add: forOf_append assms(3,4))
  have "lastSeenVersion st3 = lastSeenVersion st1"
    using forOf_events_watermark [of opts "evts1 @ evt # evts2" st1] f by simp
  moreover have "txnBody sn opts txn st1 = (Some e, st3)"
    unfolding txnBody_def v ev using g f by auto
  ultimately show ?thesis by simp
qed

lemma setNetwork_unregistered:
  assumes "map_of (networks this) network = None" "network \<notin> set object_prototype_names"
  shows "setNetwork this network =
     Inl (Error (''Unknown network: '' @ network @ ''. Available: ''
                  @ join_comma (map fst (networks this))))"
  using assms by (simp add: setNetwork_def network_truthy_def)

section \<open>Evaluating the samples\<close>

lemmas sample_defs = drilling_started_def delivery_def other_module_event_def inspection_def
  mistyped_def txn_at_def txn10_def txn11_def txn12_def supply_chain_def fresh_def
lemmas eval_defs = pollCycle_def txnBody_def eventBody_def formatEvent_def andThen_def js_or_def
  get_prop_opt_def log_def catch_warning_def prefix_of_def Let_def line_of_def
  decimal_number_def decimal_value_def is_digit_def
lemmas pred_defs = stale_def watermark_ok_def numeric_def fetch_numeric_def fetch_ok_def
  has_numeric_version_def record_ok_def event_ok_def events_of_def version_of_def
  watermark_le_def version_lt_def
section \<open>Claims\<close>


text \<open>
  C1. Once the watermark has passed the version of a transaction, the transaction is
  skipped without any effect, and it stays passed after any number of further cycles,
  so this holds in every later cycle; a cycle on a batch does exactly what it does on
  the batch without the transactions the watermark has passed. A transaction that has
  been processed is passed by the watermark from then on.
\<close>

theorem no_reemission:
  assumes "watermark_ok sn (lastSeenVersion st)"
    and "stale sn (lastSeenVersion st) txn"
    and "list_all (fetch_numeric sn) later"
    and "list_all (has_numeric_version sn) batch"
  shows "txnBody sn opts txn st = (None, st)
    \<and> stale sn (lastSeenVersion (pollLoop sn opts later st)) txn
    \<and> pollCycle sn opts (Inr (JArr batch)) st =
        pollCycle sn opts
          (Inr (JArr (filter (\<lambda>t. \<not> stale sn (lastSeenVersion st) t) batch))) st
    \<and> (record_ok sn t \<longrightarrow> stale sn (lastSeenVersion (snd (txnBody sn opts t st))) t)"
proof -
  have 1: "txnBody sn opts txn st = (None, st)"
    using assms(2) by (rule txnBody_stale)
  have 2: "stale sn (lastSeenVersion (pollLoop sn opts later st)) txn"
    using assms(2) pollLoop_step [OF assms(3) assms(1), of opts] stale_mono by blast
  have "list_all (has_numeric_version sn) (rev batch)"
    using assms(4) by (simp add: list_all_iff)
  from forOf_txns_filter [OF this assms(1) watermark_le_refl [OF assms(1)], of opts]
  have 3: "pollCycle sn opts (Inr (JArr batch)) st =
        pollCycle sn opts
          (Inr (JArr (filter (\<lambda>t. \<not> stale sn (lastSeenVersion st) t) batch))) st"
    by (simp add: pollCycle_def rev_filter)
  have 4: "stale sn (lastSeenVersion (snd (txnBody sn opts t st))) t" if t: "record_ok sn t"
  proof (cases "stale sn (lastSeenVersion st) t")
    case True
    then show ?thesis by (simp add: txnBody_stale)
  next
    case False
    from txnBody_fresh [OF t False, of opts] stale_self [OF record_ok_numeric [OF t]]
    show ?thesis by simp
  qed
  from 1 2 3 4 show ?thesis by blast
qed

theorem no_reemission_witness:
  "watermark_ok decimal_number (JStr ''11'')
   \<and> pollCycle decimal_number supply_chain (Inr (JArr [txn11, txn10])) fresh =
       \<lparr>lastSeenVersion = JStr ''11'',
        effects = [LogNewLine, LogSuccess (line_of (drilling_started ''B1'')),
                   LogNewLine, LogSuccess (line_of (delivery ''B1'')), Sleep (Fin 5000)]\<rparr>
   \<and> stale decimal_number (JStr ''11'') txn10
   \<and> stale decimal_number (JStr ''11'') txn11
   \<and> list_all (fetch_numeric decimal_number) [Inr (JArr [txn12, txn11, txn10])]
   \<and> list_all (has_numeric_version decimal_number) [txn12, txn11, txn10]
   \<and> filter (\<lambda>t. \<not> stale decimal_number (JStr ''11'') t) [txn12, txn11, txn10] = [txn12]
   \<and> pollLoop decimal_number supply_chain
         [Inr (JArr [txn11, txn10]), Inr (JArr [txn12, txn11, txn10])] fresh =
       \<lparr>lastSeenVersion = JStr ''12'',
        effects = [LogNewLine, LogSuccess (line_of (drilling_started ''B1'')),
                   LogNewLine, LogSuccess (line_of (delivery ''B1'')), Sleep (Fin 5000),
                   LogNewLine, LogSuccess (line_of (delivery ''B2'')), Sleep (Fin 5000)]\<rparr>
   \<and> pollLoop decimal_number supply_chain
         [Inr (JArr [txn10, txn11]), Inr (JArr [txn10, txn11, txn12])] fresh =
       \<lparr>lastSeenVersion = JStr ''12'',
        effects = [LogNewLine, LogSuccess (line_of (delivery ''B1'')), Sleep (Fin 5000),
                   LogNewLine, LogSuccess (line_of (delivery ''B2'')), Sleep (Fin 5000)]\<rparr>"
  using no_reemission
          [of decimal_number
              "\<lparr>lastSeenVersion = JStr ''11'',
                effects = [LogNewLine, LogSuccess (line_of (drilling_started ''B1'')),
                   LogNewLine, LogSuccess (line_of (delivery ''B1'')), Sleep (Fin 5000)]\<rparr>"
              txn10
              "[Inr (JArr [txn12, txn11, txn10])]" "[txn12, txn11, txn10]" supply_chain txn12]
  by (simp add: sample_defs eval_defs pred_defs)

text \<open>
  C2. A cycle on a batch of well-formed records writes, after what was written before,
  the events of the transactions that pass the guard, transaction after transaction in
  processing order (the batch reversed) and, within a transaction, event after event in
  the order of its event list; then it waits. The versions of the transactions written
  are strictly ascending. When the batch is newest-first, the transactions written are
  all those of the batch above the watermark, oldest first.
\<close>

theorem emission_order:
  assumes "list_all (record_ok sn) batch" and "watermark_ok sn (lastSeenVersion st)"
  shows "pollCycle sn opts (Inr (JArr batch)) st =
       \<lparr>lastSeenVersion =
          watermark_after (lastSeenVersion st) (accepted sn (lastSeenVersion st) (rev batch)),
        effects = effects st
          @ concat (map (txn_emitted opts) (accepted sn (lastSeenVersion st) (rev batch)))
          @ [Sleep (intervalMs opts)]\<rparr>
    \<and> sorted_wrt (version_lt sn) (accepted sn (lastSeenVersion st) (rev batch))
    \<and> (sorted_wrt (\<lambda>a b. version_lt sn b a) batch \<longrightarrow>
         accepted sn (lastSeenVersion st) (rev batch)
           = filter (\<lambda>t. \<not> stale sn (lastSeenVersion st) t) (rev batch))
    \<and> (events_of t = Inr evts \<longrightarrow> txn_emitted opts t = concat (map (emitted opts) evts))"
proof -
  from assms(1) have n: "list_all (has_numeric_version sn) (rev batch)"
    by (simp add: list_all_iff record_ok_numeric)
  have 1: "sorted_wrt (version_lt sn) (accepted sn (lastSeenVersion st) (rev batch))"
    by (rule accepted_sorted [OF n assms(2)])
  have 2: "accepted sn (lastSeenVersion st) (rev batch)
           = filter (\<lambda>t. \<not> stale sn (lastSeenVersion st) t) (rev batch)"
    if "sorted_wrt (\<lambda>a b. version_lt sn b a) batch"
  proof -
    from that have "sorted_wrt (version_lt sn) (rev batch)" by (simp add: sorted_wrt_rev)
    then show ?thesis using n assms(2) by (rule accepted_ascending)
  qed
  from pollCycle_accepted [OF assms(1), of opts st] 1 2 txn_emitted_events [of t evts opts]
  show ?thesis by blast
qed

theorem emission_order_witness:
  "list_all (record_ok decimal_number) [txn12, txn11, txn10]
   \<and> watermark_ok decimal_number (lastSeenVersion fresh)
   \<and> sorted_wrt (\<lambda>a b. version_lt decimal_number b a) [txn12, txn11, txn10]
   \<and> accepted decimal_number JNull [txn10, txn11, txn12] = [txn10, txn11, txn12]
   \<and> pollCycle decimal_number supply_chain (Inr (JArr [txn12, txn11, txn10])) fresh =
       \<lparr>lastSeenVersion = JStr ''12'',
        effects = [LogNewLine, LogSuccess (line_of (drilling_started ''B1'')),
                   LogNewLine, LogSuccess (line_of (delivery ''B1'')),
                   LogNewLine, LogSuccess (line_of (delivery ''B2'')), Sleep (Fin 5000)]\<rparr>
   \<and> events_of (txn_at (JNum 13) [delivery ''B3'', drilling_started ''B4''])
       = Inr [delivery ''B3'', drilling_started ''B4'']
   \<and> txn_emitted supply_chain (txn_at (JNum 13) [delivery ''B3'', drilling_started ''B4''])
       = [LogNewLine, LogSuccess (line_of (delivery ''B3'')),
          LogNewLine, LogSuccess (line_of (drilling_started ''B4''))]"
  using emission_order
          [where sn = decimal_number and batch = "[txn12, txn11, txn10]" and st = fresh
             and t = "txn_at (JNum 13) [delivery ''B3'', drilling_started ''B4'']"
             and evts = "[delivery ''B3'', drilling_started ''B4'']" and opts = supply_chain]
  by (simp add: sample_defs eval_defs pred_defs txn_emitted_def emitted_def)

text \<open>
  C3. In a run whose transactions all have numeric versions: the watermark is unset at
  the start and stays unset while every fetch fails; it never moves down, from any
  cycle of the run to any later one; a transaction whose version is at most the
  watermark, both taken as numbers, is skipped with no effect at all; and after cycles
  on well-formed records the watermark is one of the versions the run has been shown
  and every version it has been shown is at most the watermark, that is, it is the
  highest version observed so far (unset only if none has been observed).
\<close>

theorem watermark_invariant:
  assumes "list_all (fetch_numeric sn) fetches" and "m \<le> n"
  shows "lastSeenVersion (pollEvents sn addr opts (map Inl errs)) = JNull
    \<and> watermark_le sn (lastSeenVersion (pollEvents sn addr opts (take m fetches)))
         (lastSeenVersion (pollEvents sn addr opts (take n fetches)))
    \<and> (stale sn (lastSeenVersion st) txn \<longrightarrow> txnBody sn opts txn st = (None, st))
    \<and> (list_all (fetch_ok sn) fetches \<longrightarrow>
         (\<forall>t \<in> set (observed fetches).
             stale sn (lastSeenVersion (pollEvents sn addr opts fetches)) t)
         \<and> (lastSeenVersion (pollEvents sn addr opts fetches) = JNull
            \<or> lastSeenVersion (pollEvents sn addr opts fetches)
                 \<in> version_of ` set (observed fetches)))"
proof -
  have w0: "watermark_ok sn (lastSeenVersion (start addr opts))"
    by (simp add: start_watermark watermark_ok_def)
  have 1: "lastSeenVersion (pollEvents sn addr opts (map Inl errs)) = JNull"
    by (simp add: pollEvents_def pollLoop_failures start_watermark)
  have 2: "watermark_le sn (lastSeenVersion (pollEvents sn addr opts (take m fetches)))
         (lastSeenVersion (pollEvents sn addr opts (take n fetches)))"
    unfolding pollEvents_def by (rule pollLoop_prefix [OF assms(1) w0 assms(2)])
  have 3: "stale sn (lastSeenVersion st) txn \<longrightarrow> txnBody sn opts txn st = (None, st)"
    by (simp add: txnBody_stale)
  have 4: "\<forall>t \<in> set (observed fetches).
             stale sn (lastSeenVersion (pollEvents sn addr opts fetches)) t"
    if "list_all (fetch_ok sn) fetches"
    unfolding pollEvents_def by (rule pollLoop_all_stale [OF that w0])
  have 5: "lastSeenVersion (pollEvents sn addr opts fetches) = JNull
            \<or> lastSeenVersion (pollEvents sn addr opts fetches)
                 \<in> version_of ` set (observed fetches)"
    using pollLoop_observed [of sn opts fetches "start addr opts"]
    by (simp add: pollEvents_def start_watermark)
  from 1 2 3 4 5 show ?thesis by blast
qed

theorem watermark_invariant_witness:
  "list_all (fetch_numeric decimal_number)
     [Inl (Error ''Network error: No response from RPC endpoint''),
      Inr (JArr [txn_at (JStr ''9'') []]),
      Inr (JArr [txn_at (JNum 10) [], txn_at (JStr ''9'') []])]
   \<and> (2::nat) \<le> 3
   \<and> lastSeenVersion (pollEvents decimal_number (JStr ''0xabc'') supply_chain
        (take 2 [Inl (Error ''Network error: No response from RPC endpoint''),
                 Inr (JArr [txn_at (JStr ''9'') []]),
                 Inr (JArr [txn_at (JNum 10) [], txn_at (JStr ''9'') []])])) = JStr ''9''
   \<and> lastSeenVersion (pollEvents decimal_number (JStr ''0xabc'') supply_chain
        (take 3 [Inl (Error ''Network error: No response from RPC endpoint''),
                 Inr (JArr [txn_at (JStr ''9'') []]),
                 Inr (JArr [txn_at (JNum 10) [], txn_at (JStr ''9'') []])])) = JNum 10
   \<and> watermark_le decimal_number (JStr ''9'') (JNum 10)
   \<and> stale decimal_number (JStr ''10'') (txn_at (JStr ''9'') [delivery ''B1''])
   \<and> txnBody decimal_number supply_chain (txn_at (JStr ''9'') [delivery ''B1''])
        \<lparr>lastSeenVersion = JStr ''10'', effects = []\<rparr>
       = (None, \<lparr>lastSeenVersion = JStr ''10'', effects = []\<rparr>)
   \<and> \<not> stale decimal_number (JStr ''9'') (txn_at (JStr ''10'') [delivery ''B1''])
   \<and> list_all (fetch_ok decimal_number)
        [Inl (Error ''Network error: No response from RPC endpoint''),
         Inr (JArr [txn_at (JStr ''9'') []]),
         Inr (JArr [txn_at (JNum 10) [], txn_at (JStr ''9'') []])]"
  using watermark_invariant
          [of decimal_number
              "[Inl (Error ''Network error: No response from RPC endpoint''),
                Inr (JArr [txn_at (JStr ''9'') []]),
                Inr (JArr [txn_at (JNum 10) [], txn_at (JStr ''9'') []])]"
              2 3 "JStr ''0xabc''" supply_chain "[]"
              "\<lparr>lastSeenVersion = JStr ''10'', effects = []\<rparr>"
              "txn_at (JStr ''9'') [delivery ''B1'']"]
  by (simp add: sample_defs eval_defs pred_defs pollEvents_def start_def)

text \<open>
  C4. The claim is that an event on which filtering or formatting raises is skipped and
  the cycle goes on with the events and transactions after it. The code has one handler,
  around the whole cycle. With an event whose \<open>type\<close> is a number between two
  deliveries of transaction 5, in a batch that also has transaction 6: the first
  delivery is written, the exception is logged as a polling warning, and nothing else
  happens in the cycle; the second delivery and transaction 6 are not processed and the
  watermark does not move. That is not what the cycle does on the same batch without
  the event.
\<close>

theorem event_error_not_isolated:
  "fst (eventBody supply_chain mistyped fresh) = Some TypeError
   \<and> pollCycle decimal_number supply_chain
        (Inr (JArr [txn_at (JStr ''6'') [delivery ''B3''],
                    txn_at (JStr ''5'') [delivery ''B1'', mistyped, delivery ''B2'']])) fresh
       = \<lparr>lastSeenVersion = JNull,
          effects = [LogNewLine, LogSuccess (line_of (delivery ''B1'')),
                     LogWarning [Lit ''Polling error: '', Message TypeError],
                     Sleep (Fin 5000)]\<rparr>
   \<and> pollCycle decimal_number supply_chain
        (Inr (JArr [txn_at (JStr ''6'') [delivery ''B3''],
                    txn_at (JStr ''5'') [delivery ''B1'', delivery ''B2'']])) fresh
       = \<lparr>lastSeenVersion = JStr ''6'',
          effects = [LogNewLine, LogSuccess (line_of (delivery ''B1'')),
                     LogNewLine, LogSuccess (line_of (delivery ''B2'')),
                     LogNewLine, LogSuccess (line_of (delivery ''B3'')),
                     Sleep (Fin 5000)]\<rparr>
   \<and> pollCycle decimal_number supply_chain
        (Inr (JArr [txn_at (JStr ''6'') [delivery ''B3''],
                    txn_at (JStr ''5'') [delivery ''B1'', mistyped, delivery ''B2'']])) fresh
       \<noteq> pollCycle decimal_number supply_chain
        (Inr (JArr [txn_at (JStr ''6'') [delivery ''B3''],
                    txn_at (JStr ''5'') [delivery ''B1'', delivery ''B2'']])) fresh"
  by (simp add: sample_defs eval_defs)

text \<open>
  C4, as the code has it. When the body of the event loop raises on an event, the cycle
  ends there: what the transactions before and the events before it have written
  stays, the events after it and the transactions after its transaction are not
  processed in this cycle (the outcome does not depend on them), the watermark is the
  one the last completed transaction left, the exception is logged as a polling
  warning, and the loop goes on to the wait and to the next cycle.
\<close>

theorem event_error_ends_cycle:
  assumes "forOf (txnBody sn opts) before st = (None, st_txns)"
    and "\<not> stale sn (lastSeenVersion st_txns) txn"
    and "events_of txn = Inr (earlier @ evt # remaining)"
    and "forOf (eventBody opts) earlier st_txns = (None, st_evts)"
    and "eventBody opts evt st_evts = (Some e, st_err)"
  shows "pollCycle sn opts (Inr (JArr (rev (before @ txn # after)))) st =
       \<lparr>lastSeenVersion = lastSeenVersion st_txns,
        effects = effects st_err @ [LogWarning [Lit ''Polling error: '', Message e],
                                 Sleep (intervalMs opts)]\<rparr>
    \<and> pollLoop sn opts (Inr (JArr (rev (before @ txn # after))) # rest) st =
        pollLoop sn opts rest
          \<lparr>lastSeenVersion = lastSeenVersion st_txns,
           effects = effects st_err @ [LogWarning [Lit ''Polling error: '', Message e],
                                    Sleep (intervalMs opts)]\<rparr>"
proof -
  from txnBody_event_raises [OF assms(2-5)]
  have t: "txnBody sn opts txn st_txns = (Some e, st_err)"
    and w: "lastSeenVersion st_err = lastSeenVersion st_txns" by auto
  have "forOf (txnBody sn opts) (before @ txn # after) st = (Some e, st_err)"
    by (simp add: forOf_append assms(1) t)
  then have "pollCycle sn opts (Inr (JArr (rev (before @ txn # after)))) st =
       \<lparr>lastSeenVersion = lastSeenVersion st_txns,
        effects = effects st_err @ [LogWarning [Lit ''Polling error: '', Message e],
                                 Sleep (intervalMs opts)]\<rparr>"
    using w by (simp add: pollCycle_def catch_warning_def log_def)
  then show ?thesis by simp
qed

theorem event_error_ends_cycle_witness:
  "forOf (txnBody decimal_number supply_chain) [txn_at (JStr ''4'') [delivery ''B0'']] fresh
     = (None, \<lparr>lastSeenVersion = JStr ''4'',
               effects = [LogNewLine, LogSuccess (line_of (delivery ''B0''))]\<rparr>)
   \<and> \<not> stale decimal_number (JStr ''4'')
         (txn_at (JStr ''5'') [delivery ''B1'', mistyped, delivery ''B2''])
   \<and> events_of (txn_at (JStr ''5'') [delivery ''B1'', mistyped, delivery ''B2''])
       = Inr ([delivery ''B1''] @ mistyped # [delivery ''B2''])
   \<and> forOf (eventBody supply_chain) [delivery ''B1'']
         \<lparr>lastSeenVersion = JStr ''4'',
          effects = [LogNewLine, LogSuccess (line_of (delivery ''B0''))]\<rparr>
       = (None, \<lparr>lastSeenVersion = JStr ''4'',
                 effects = [LogNewLine, LogSuccess (line_of (delivery ''B0'')),
                            LogNewLine, LogSuccess (line_of (delivery ''B1''))]\<rparr>)
   \<and> eventBody supply_chain mistyped
         \<lparr>lastSeenVersion = JStr ''4'',
          effects = [LogNewLine, LogSuccess (line_of (delivery ''B0'')),
                     LogNewLine, LogSuccess (line_of (delivery ''B1''))]\<rparr>
       = (Some TypeError,
          \<lparr>lastSeenVersion = JStr ''4'',
           effects = [LogNewLine, LogSuccess (line_of (delivery ''B0'')),
                      LogNewLine, LogSuccess (line_of (delivery ''B1''))]\<rparr>)
   \<and> pollCycle decimal_number supply_chain
        (Inr (JArr [txn_at (JStr ''6'') [delivery ''B3''],
                    txn_at (JStr ''5'') [delivery ''B1'', mistyped, delivery ''B2''],
                    txn_at (JStr ''4'') [delivery ''B0'']])) fresh
       = \<lparr>lastSeenVersion = JStr ''4'',
          effects = [LogNewLine, LogSuccess (line_of (delivery ''B0'')),
                     LogNewLine, LogSuccess (line_of (delivery ''B1'')),
                     LogWarning [Lit ''Polling error: '', Message TypeError],
                     Sleep (Fin 5000)]\<rparr>"
  using event_error_ends_cycle
     [where sn = decimal_number and opts = supply_chain
        and before = "[txn_at (JStr ''4'') [delivery ''B0'']]" and st = fresh
        and st_txns = "\<lparr>lastSeenVersion = JStr ''4'',
               effects = [LogNewLine, LogSuccess (line_of (delivery ''B0''))]\<rparr>"
        and txn = "txn_at (JStr ''5'') [delivery ''B1'', mistyped, delivery ''B2'']"
        and earlier = "[delivery ''B1'']" and evt = mistyped and remaining = "[delivery ''B2'']"
        and st_evts = "\<lparr>lastSeenVersion = JStr ''4'',
                 effects = [LogNewLine, LogSuccess (line_of (delivery ''B0'')),
                            LogNewLine, LogSuccess (line_of (delivery ''B1''))]\<rparr>"
        and e = TypeError
        and st_err = "\<lparr>lastSeenVersion = JStr ''4'',
                 effects = [LogNewLine, LogSuccess (line_of (delivery ''B0'')),
                            LogNewLine, LogSuccess (line_of (delivery ''B1''))]\<rparr>"
        and after = "[txn_at (JStr ''6'') [delivery ''B3'']]" and rest = "[]"]
  by (simp add: sample_defs eval_defs pred_defs)

text \<open>
  C5. When the module filter is set and the module of an event's parsed type differs
  from it, the body of the event loop ends without writing anything, whatever the batch
  filter is. When the batch filter is set and the event's \<open>data.batch_id\<close> differs
  from it, nothing is written for the event either.
\<close>

theorem filters_exclude:
  "(get_prop evt ''type'' = Inr ty \<and> parseEventType (js_or ty (JStr '''')) = Inr (Some p)
      \<and> truthy (moduleFilter opts) \<and> \<not> strict_eq (JStr (module p)) (moduleFilter opts)
     \<longrightarrow> eventBody (opts\<lparr>batchId := bid\<rparr>) evt st = (None, st)
         \<and> emitted (opts\<lparr>batchId := bid\<rparr>) evt = [])
   \<and> (get_prop evt ''data'' = Inr d \<and> get_prop_opt d ''batch_id'' = Inr b
      \<and> truthy (batchId opts) \<and> \<not> strict_eq b (batchId opts)
     \<longrightarrow> snd (eventBody opts evt st) = st \<and> emitted opts evt = [])"
  by (auto simp: eventBody_def emitted_def andThen_def split: sum.splits option.splits)

theorem filters_exclude_witness:
  "get_prop other_module_event ''type'' = Inr (JStr ''0xabc::other_module::DeliveryEvent'')
   \<and> parseEventType (js_or (JStr ''0xabc::other_module::DeliveryEvent'') (JStr ''''))
       = Inr (Some \<lparr>address = ''0xabc'', module = ''other_module'', name = ''DeliveryEvent''\<rparr>)
   \<and> truthy (moduleFilter supply_chain)
   \<and> \<not> strict_eq (JStr ''other_module'') (moduleFilter supply_chain)
   \<and> eventBody (supply_chain\<lparr>batchId := JStr ''BATCH-1''\<rparr>) other_module_event fresh
       = (None, fresh)
   \<and> eventBody supply_chain other_module_event fresh = (None, fresh)
   \<and> get_prop (delivery ''BATCH-2'') ''data''
       = Inr (JObj [(''batch_id'', JStr ''BATCH-2''), (''destination'', JStr ''Depot-7'')])
   \<and> get_prop_opt (JObj [(''batch_id'', JStr ''BATCH-2''), (''destination'', JStr ''Depot-7'')])
         ''batch_id'' = Inr (JStr ''BATCH-2'')
   \<and> \<not> strict_eq (JStr ''BATCH-2'') (JStr ''BATCH-1'')
   \<and> snd (eventBody (supply_chain\<lparr>batchId := JStr ''BATCH-1''\<rparr>) (delivery ''BATCH-2'') fresh)
       = fresh
   \<and> emitted (supply_chain\<lparr>batchId := JStr ''BATCH-1''\<rparr>) (delivery ''BATCH-1'')
       = [LogNewLine, LogSuccess (line_of (delivery ''BATCH-1''))]"
  using filters_exclude
          [of other_module_event "JStr ''0xabc::other_module::DeliveryEvent''"
              "\<lparr>address = ''0xabc'', module = ''other_module'', name = ''DeliveryEvent''\<rparr>"
              supply_chain "JStr ''BATCH-1''" fresh]
        filters_exclude
          [where opts = "supply_chain\<lparr>batchId := JStr ''BATCH-1''\<rparr>"
             and evt = "delivery ''BATCH-2''"
             and d = "JObj [(''batch_id'', JStr ''BATCH-2''), (''destination'', JStr ''Depot-7'')]"
             and b = "JStr ''BATCH-2''" and st = fresh]
  by (simp add: other_module_event_def delivery_def supply_chain_def fresh_def js_or_def
        get_prop_opt_def eventBody_def emitted_def andThen_def line_of_def formatEvent_def
        log_def prefix_of_def Let_def)

text \<open>
  C6. A cycle whose fetch is rejected leaves the watermark as it was, logs the
  exception as a polling warning and goes on to the wait; the loop does not end there:
  the cycles after it run, from the state the failed one left. However many fetches
  fail in a row, each is answered by the warning and the wait, and the watermark is
  still the one before them.
\<close>

theorem fetch_failure_recoverable:
  "pollCycle sn opts (Inl err) st =
     \<lparr>lastSeenVersion = lastSeenVersion st,
      effects = effects st @ [LogWarning [Lit ''Polling error: '', Message err],
                              Sleep (intervalMs opts)]\<rparr>
   \<and> pollLoop sn opts (before @ Inl err # after) st =
       pollLoop sn opts after (pollCycle sn opts (Inl err) (pollLoop sn opts before st))
   \<and> pollLoop sn opts (map Inl errs) st =
       \<lparr>lastSeenVersion = lastSeenVersion st,
        effects = effects st
          @ concat (map (\<lambda>err. [LogWarning [Lit ''Polling error: '', Message err],
                                  Sleep (intervalMs opts)]) errs)\<rparr>"
  using pollCycle_failure [of sn opts err st] pollLoop_failures_effects [of sn opts errs st]
  by (simp add: pollLoop_append)
text \<open>
  C7. \<open>parseEventType\<close> on a string: when the string splits on \<open>::\<close> into at
  least three segments, the result is the structure (not \<open>null\<close>) of the first three
  segments, in order, whatever follows them; when it splits into fewer than three (the
  empty string has one segment, \<open>onlytwo::parts\<close> has two), the result is
  \<open>null\<close>. The segments are those of \<open>split\<close>: joined with \<open>::\<close> they give the
  string back, and a string written as colon-free segments joined with \<open>::\<close> splits
  into exactly these.
\<close>

theorem parseEventType_segments:
  "(3 \<le> length (split_colons s) \<longrightarrow>
      (\<exists>rest. split_colons s
         = split_colons s ! 0 # split_colons s ! 1 # split_colons s ! 2 # rest)
      \<and> parseEventType (JStr s) =
          Inr (Some \<lparr>address = split_colons s ! 0, module = split_colons s ! 1,
                      name = split_colons s ! 2\<rparr>))
   \<and> (length (split_colons t) < 3 \<longrightarrow> parseEventType (JStr t) = Inr None)
   \<and> join_colons (split_colons s) = s
   \<and> ((\<forall>p \<in> set (a # m # n # rest). CHR '':'' \<notin> set p) \<longrightarrow>
        parseEventType (JStr (join_colons (a # m # n # rest)))
          = Inr (Some \<lparr>address = a, module = m, name = n\<rparr>))
   \<and> parseEventType (JStr '''') = Inr None
   \<and> parseEventType (JStr ''onlytwo::parts'') = Inr None"
proof (intro conjI impI)
  assume len: "3 \<le> length (split_colons s)"
  then obtain a m n rest where sp: "split_colons s = a # m # n # rest"
    by (auto simp: numeral_3_eq_3 Suc_le_length_iff)
  then show "\<exists>rest. split_colons s
      = split_colons s ! 0 # split_colons s ! 1 # split_colons s ! 2 # rest"
    by simp
  from len show "parseEventType (JStr s) =
          Inr (Some \<lparr>address = split_colons s ! 0, module = split_colons s ! 1,
                      name = split_colons s ! 2\<rparr>)"
    by (simp add: Let_def)
next
  assume "length (split_colons t) < 3"
  then show "parseEventType (JStr t) = Inr None" by simp
next
  show "join_colons (split_colons s) = s" by (rule join_split_colons)
next
  assume "\<forall>p \<in> set (a # m # n # rest). CHR '':'' \<notin> set p"
  then have "split_colons (join_colons (a # m # n # rest)) = a # m # n # rest"
    by (intro split_join_colons) auto
  then show "parseEventType (JStr (join_colons (a # m # n # rest)))
          = Inr (Some \<lparr>address = a, module = m, name = n\<rparr>)"
    by (simp del: join_colons.simps)
next
  show "parseEventType (JStr '''') = Inr None" by simp
next
  show "parseEventType (JStr ''onlytwo::parts'') = Inr None" by simp
qed

theorem parseEventType_segments_witness:
  "3 \<le> length (split_colons ''0xabc::oil_supply_chain::DeliveryEvent::v2'')
   \<and> parseEventType (JStr ''0xabc::oil_supply_chain::DeliveryEvent::v2'')
       = Inr (Some \<lparr>address = ''0xabc'', module = ''oil_supply_chain'',
                   name = ''DeliveryEvent''\<rparr>)
   \<and> length (split_colons ''a:::b'') < 3
   \<and> parseEventType (JStr ''a:::b'') = Inr None
   \<and> list_all (\<lambda>p. CHR '':'' \<notin> set p) [''0x1'', ''m'', ''E'', ''x'', ''y'']
   \<and> parseEventType (JStr (join_colons [''0x1'', ''m'', ''E'', ''x'', ''y'']))
       = Inr (Some \<lparr>address = ''0x1'', module = ''m'', name = ''E''\<rparr>)"
  using parseEventType_segments
          [of "''0xabc::oil_supply_chain::DeliveryEvent::v2''" "''a:::b''"
              "''0x1''" "''m''" "''E''" "[''x'', ''y'']"]
  by simp

text \<open>
  C8. \<open>setNetwork\<close> on the client as constructed, with the name
  \<open>constructor\<close>, which is not in the table of networks: the call does not raise but
  makes it the current network, and the command tracks on it without a warning. With
  \<open>staging\<close>, also not in the table, the call raises the error that lists the
  names of the table, and the command logs the warning and tracks on the client
  unchanged, whose current network is \<open>testnet\<close>.
\<close>

theorem setNetwork_inherited_name:
  "map_of (networks new_rpcClient) ''constructor'' = None
   \<and> setNetwork new_rpcClient ''constructor'' =
       Inr (new_rpcClient\<lparr>currentNetwork := ''constructor''\<rparr>,
            [LogInfo [Lit ''Network set to: '', Interp (JStr ''constructor'')]])
   \<and> trackCommand decimal_number (track_opts ''constructor'') new_rpcClient [] =
       Tracking (new_rpcClient\<lparr>currentNetwork := ''constructor''\<rparr>)
         \<lparr>lastSeenVersion = JNull,
          effects =
            [LogInfo [Lit ''Network set to: '', Interp (JStr ''constructor'')],
             StartSpinner ''Connecting to RPC and starting tracker...'',
             SucceedSpinner ''Tracker running. Listening for events.'',
             LogInfo [Lit ''Tracking events for account: '', Interp (JStr ''0xabc'')],
             LogInfo [Lit ''Module filter: '', Interp (JStr ''oil_supply_chain'')]]\<rparr>
   \<and> setNetwork new_rpcClient ''staging'' =
       Inl (Error ''Unknown network: staging. Available: testnet, devnet, mainnet'')
   \<and> trackCommand decimal_number (track_opts ''staging'') new_rpcClient [] =
       Tracking new_rpcClient
         \<lparr>lastSeenVersion = JNull,
          effects =
            [LogWarning [Lit (''Unknown network '' @ [CHR 0x27]), Interp (JStr ''staging''),
                         Lit ([CHR 0x27] @ '', defaulting to testnet.'')],
             StartSpinner ''Connecting to RPC and starting tracker...'',
             SucceedSpinner ''Tracker running. Listening for events.'',
             LogInfo [Lit ''Tracking events for account: '', Interp (JStr ''0xabc'')],
             LogInfo [Lit ''Module filter: '', Interp (JStr ''oil_supply_chain'')]]\<rparr>
   \<and> currentNetwork new_rpcClient = ''testnet''"
  by (simp add: setNetwork_def network_truthy_def new_rpcClient_def object_prototype_names_def
        trackCommand_def track_opts_def pollEvents_def start_def js_or_def Let_def)
text \<open>
  C9. For an event whose type parses, \<open>formatEvent\<close> returns a line and never
  raises. When the name is none of the five known kinds, the line is the prefix followed
  by \<open>JSON.stringify\<close> of the event's data (\<open>{}\<close> when it has none). For each
  known kind the line is its template, filled with the fields read from the data; the
  value of a field that the data does not have is \<open>undefined\<close>, which is what the
  line then shows at its place.
\<close>

theorem formatEvent_never_raises:
  assumes "get_prop evt ''type'' = Inr ty"
    and "parseEventType (js_or ty (JStr '''')) = Inr (Some p)"
  shows "(name p \<notin> set known_kinds \<longrightarrow>
            formatEvent evt = Inr (prefix_of p @ [Lit '' '', Stringify (data_of evt)]))
    \<and> (\<exists>l. formatEvent evt = Inr l)
    \<and> (name p = ''DrillingStartedEvent'' \<longrightarrow>
         formatEvent evt =
           Inr (prefix_of p @
                [Lit '' batch '', Chalk cyan (field (data_of evt) ''batch_id''),
                 Lit ('' '' @ em_dash @ '' ''), Chalk green (JStr ''drilling started''),
                 Lit '' at '', Chalk white (field (data_of evt) ''location''),
                 Lit ('' '' @ bullet @ '' qty ''), Chalk white (field (data_of evt) ''quantity''),
                 Lit '' '', Chalk white (field (data_of evt) ''unit'')]))
    \<and> (name p = ''DrillingCompletedEvent'' \<longrightarrow>
         formatEvent evt =
           Inr (prefix_of p @
                [Lit '' batch '', Chalk cyan (field (data_of evt) ''batch_id''),
                 Lit ('' '' @ em_dash @ '' ''), Chalk green (JStr ''drilling completed''),
                 Lit '' at '', Chalk white (field (data_of evt) ''location'')]))
    \<and> (name p = ''TransportationEvent'' \<longrightarrow>
         formatEvent evt =
           Inr (prefix_of p @
                [Lit '' batch '', Chalk cyan (field (data_of evt) ''batch_id''),
                 Lit ('' '' @ em_dash @ '' moved ''), Chalk white (field (data_of evt) ''method''),
                 Lit '' from '', Chalk white (field (data_of evt) ''from''),
                 Lit ('' '' @ arrow @ '' ''), Chalk white (field (data_of evt) ''to'')]))
    \<and> (name p = ''RefiningEvent'' \<longrightarrow>
         formatEvent evt =
           Inr (prefix_of p @
                [Lit '' batch '', Chalk cyan (field (data_of evt) ''batch_id''),
                 Lit ('' '' @ em_dash @ '' ''), Chalk magenta (JStr ''refined''),
                 Lit '' at '', Chalk white (field (data_of evt) ''refinery''),
                 Lit ('' '' @ bullet @ '' output ''),
                 Chalk white (field (data_of evt) ''output_quantity''),
                 Lit '' '', Chalk white (field (data_of evt) ''unit'')]))
    \<and> (name p = ''DeliveryEvent'' \<longrightarrow>
         formatEvent evt =
           Inr (prefix_of p @
                [Lit '' batch '', Chalk cyan (field (data_of evt) ''batch_id''),
                 Lit ('' '' @ em_dash @ '' ''), Chalk blue (JStr ''delivered''),
                 Lit '' to '', Chalk white (field (data_of evt) ''destination'')]))
    \<and> ((case data_of evt of JObj kvs \<Rightarrow> map_of kvs k = None | _ \<Rightarrow> True) \<longrightarrow>
         field (data_of evt) k = JUndefined)"
proof -
  obtain d where d: "get_prop evt ''data'' = Inr d"
    using get_prop_other [OF assms(1)] by blast
  then have dd: "js_or d (JObj []) = data_of evt"
    by (simp add: data_of_def field_def)
  have fmt: "formatEvent evt =
    (let data = data_of evt; pre = prefix_of p in
           if name p = ''DrillingStartedEvent'' then
               Inr (pre @ [Lit '' batch '', Chalk cyan (field data ''batch_id''),
                           Lit ('' '' @ em_dash @ '' ''), Chalk green (JStr ''drilling started''),
                           Lit '' at '', Chalk white (field data ''location''),
                           Lit ('' '' @ bullet @ '' qty ''), Chalk white (field data ''quantity''),
                           Lit '' '', Chalk white (field data ''unit'')])
           else if name p = ''DrillingCompletedEvent'' then
               Inr (pre @ [Lit '' batch '', Chalk cyan (field data ''batch_id''),
                           Lit ('' '' @ em_dash @ '' ''), Chalk green (JStr ''drilling completed''),
                           Lit '' at '', Chalk white (field data ''location'')])
           else if name p = ''TransportationEvent'' then
               Inr (pre @ [Lit '' batch '', Chalk cyan (field data ''batch_id''),
                           Lit ('' '' @ em_dash @ '' moved ''), Chalk white (field data ''method''),
                           Lit '' from '', Chalk white (field data ''from''),
                           Lit ('' '' @ arrow @ '' ''), Chalk white (field data ''to'')])
           else if name p = ''RefiningEvent'' then
               Inr (pre @ [Lit '' batch '', Chalk cyan (field data ''batch_id''),
                           Lit ('' '' @ em_dash @ '' ''), Chalk magenta (JStr ''refined''),
                           Lit '' at '', Chalk white (field data ''refinery''),
                           Lit ('' '' @ bullet @ '' output ''),
                           Chalk white (field data ''output_quantity''),
                           Lit '' '', Chalk white (field data ''unit'')])
           else if name p = ''DeliveryEvent'' then
               Inr (pre @ [Lit '' batch '', Chalk cyan (field data ''batch_id''),
                           Lit ('' '' @ em_dash @ '' ''), Chalk blue (JStr ''delivered''),
                           Lit '' to '', Chalk white (field data ''destination'')])
           else Inr (pre @ [Lit '' '', Stringify data]))"
    unfolding formatEvent_def
    by (simp add: andThen_def assms d dd field_data Let_def del: append.simps)
  show ?thesis
    unfolding fmt by (auto simp: Let_def known_kinds_def field_absent simp del: append.simps)
qed

theorem formatEvent_never_raises_witness:
  "get_prop inspection ''type'' = Inr (JStr ''0xabc::oil_supply_chain::InspectionEvent'')
   \<and> parseEventType (js_or (JStr ''0xabc::oil_supply_chain::InspectionEvent'') (JStr ''''))
       = Inr (Some \<lparr>address = ''0xabc'', module = ''oil_supply_chain'',
                    name = ''InspectionEvent''\<rparr>)
   \<and> ''InspectionEvent'' \<notin> set known_kinds
   \<and> formatEvent inspection =
       Inr [Chalk gray (JStr ''[''), Chalk white (JStr ''InspectionEvent''),
            Chalk gray (JStr '']''), Lit '' '',
            Stringify (JObj [(''inspector'', JStr ''QA'')])]
   \<and> field (data_of inspection) ''batch_id'' = JUndefined
   \<and> formatEvent (JObj [(''type'', JStr ''0x1::m::DeliveryEvent'')]) =
       Inr [Chalk gray (JStr ''[''), Chalk white (JStr ''DeliveryEvent''),
            Chalk gray (JStr '']''), Lit '' batch '', Chalk cyan JUndefined,
            Lit ('' '' @ em_dash @ '' ''), Chalk blue (JStr ''delivered''),
            Lit '' to '', Chalk white JUndefined]"
  using formatEvent_never_raises
          [of inspection "JStr ''0xabc::oil_supply_chain::InspectionEvent''"
              "\<lparr>address = ''0xabc'', module = ''oil_supply_chain'', name = ''InspectionEvent''\<rparr>"
              "''batch_id''"]
  by (simp add: inspection_def js_or_def known_kinds_def prefix_of_def data_of_def field_def
        formatEvent_def andThen_def)

text \<open>
  C10. When a batch of well-formed records comes oldest-first and its last (newest)
  transaction is above the watermark, the reversal makes that transaction the first
  one processed: the cycle writes its events only and the watermark becomes its
  version. Every transaction of the batch is then at or below the watermark, and stays
  so after any later cycles: each of them is skipped there, without any effect.
\<close>

theorem oldest_first_drops:
  assumes "list_all (record_ok sn) batch" and "batch \<noteq> []"
    and "sorted_wrt (version_lt sn) batch"
    and "watermark_ok sn (lastSeenVersion st)"
    and "\<not> stale sn (lastSeenVersion st) (last batch)"
    and "list_all (fetch_numeric sn) later"
  shows "pollCycle sn opts (Inr (JArr batch)) st =
       \<lparr>lastSeenVersion = version_of (last batch),
        effects = effects st @ txn_emitted opts (last batch) @ [Sleep (intervalMs opts)]\<rparr>
    \<and> (\<forall>t \<in> set batch.
         stale sn (lastSeenVersion
                    (pollLoop sn opts later (pollCycle sn opts (Inr (JArr batch)) st))) t
         \<and> txnBody sn opts t (pollLoop sn opts later (pollCycle sn opts (Inr (JArr batch)) st))
             = (None, pollLoop sn opts later (pollCycle sn opts (Inr (JArr batch)) st)))"
proof -
  from assms(1) have n: "list_all (has_numeric_version sn) batch"
    by (rule list_all_record_ok_numeric)
  from assms(2) have b: "batch = butlast batch @ [last batch]" by simp
  have r: "rev batch = last batch # rev (butlast batch)"
    using assms(2) rev_append [of "butlast batch" "[last batch]"] by simp
  from assms(2) have l: "last batch \<in> set batch" by simp
  with n have nl: "has_numeric_version sn (last batch)" by (simp add: list_all_iff)
  have older: "stale sn (version_of (last batch)) u" if u: "u \<in> set (butlast batch)" for u
  proof -
    from u have "u \<in> set batch" by (rule in_set_butlastD)
    with n have "has_numeric_version sn u" by (simp add: list_all_iff)
    moreover from sorted_wrt_last [OF assms(3) assms(2)] u
    have "version_lt sn u (last batch)" by simp
    ultimately show ?thesis using nl by (simp add: version_lt_stale)
  qed
  then have acc: "accepted sn (lastSeenVersion st) (rev batch) = [last batch]"
    unfolding r using assms(5) by (intro accepted_newest_first) auto
  have 1: "pollCycle sn opts (Inr (JArr batch)) st =
       \<lparr>lastSeenVersion = version_of (last batch),
        effects = effects st @ txn_emitted opts (last batch) @ [Sleep (intervalMs opts)]\<rparr>"
    using pollCycle_accepted [OF assms(1), of opts st]
    by (simp add: acc watermark_after_def)
  let ?st1 = "pollCycle sn opts (Inr (JArr batch)) st"
  have ok1: "watermark_ok sn (lastSeenVersion ?st1)"
    using numeric_version_of [OF nl] by (simp add: 1 watermark_ok_def)
  have all: "stale sn (lastSeenVersion ?st1) t" if t: "t \<in> set batch" for t
  proof -
    from t b have "t \<in> set (butlast batch) \<or> t = last batch"
      by (metis Un_iff empty_iff empty_set set_ConsD set_append)
    with older stale_self [OF nl] show ?thesis by (auto simp: 1)
  qed
  from pollLoop_step [OF assms(6) ok1, of opts]
  have "watermark_le sn (lastSeenVersion ?st1) (lastSeenVersion (pollLoop sn opts later ?st1))"
    by simp
  with all have "\<forall>t \<in> set batch. stale sn (lastSeenVersion (pollLoop sn opts later ?st1)) t"
    using stale_mono by blast
  with 1 show ?thesis by (simp add: txnBody_stale)
qed

theorem oldest_first_drops_witness:
  "list_all (record_ok decimal_number) [txn10, txn11, txn12]
   \<and> [txn10, txn11, txn12] \<noteq> []
   \<and> sorted_wrt (version_lt decimal_number) [txn10, txn11, txn12]
   \<and> watermark_ok decimal_number (lastSeenVersion fresh)
   \<and> \<not> stale decimal_number (lastSeenVersion fresh) (last [txn10, txn11, txn12])
   \<and> list_all (fetch_numeric decimal_number) [Inr (JArr [txn10, txn11, txn12])]
   \<and> pollCycle decimal_number supply_chain (Inr (JArr [txn10, txn11, txn12])) fresh =
       \<lparr>lastSeenVersion = JStr ''12'',
        effects = [LogNewLine, LogSuccess (line_of (delivery ''B2'')), Sleep (Fin 5000)]\<rparr>
   \<and> pollLoop decimal_number supply_chain
        [Inr (JArr [txn10, txn11, txn12]), Inr (JArr [txn10, txn11, txn12])] fresh =
       \<lparr>lastSeenVersion = JStr ''12'',
        effects = [LogNewLine, LogSuccess (line_of (delivery ''B2'')), Sleep (Fin 5000),
                   Sleep (Fin 5000)]\<rparr>
   \<and> stale decimal_number (JStr ''12'') txn10
   \<and> stale decimal_number (JStr ''12'') txn11"
  using oldest_first_drops
          [where sn = decimal_number and batch = "[txn10, txn11, txn12]" and st = fresh
             and later = "[Inr (JArr [txn10, txn11, txn12])]" and opts = supply_chain]
  by (simp add: sample_defs eval_defs pred_defs)

end
